theory Spec2Isabelle
  imports Main "HOL-Library.Sublist"
begin

section \<open>Python values and errors\<close>

text \<open>
  The exceptions that the modelled functions of \<^verbatim>\<open>build_lib.py\<close> can raise. A function
  that may raise returns \<open>py_error + 'a\<close>, with \<open>Inl\<close> for the exception.
\<close>

datatype py_error = IndexError | TypeError | ValueError | KeyError

definition bindE :: "py_error + 'a \<Rightarrow> ('a \<Rightarrow> py_error + 'b) \<Rightarrow> py_error + 'b" where
  "bindE m f = (case m of Inl e \<Rightarrow> Inl e | Inr x \<Rightarrow> f x)"

text \<open>
  A comprehension or \<^verbatim>\<open>for\<close> loop whose body may raise: the elements are processed in
  order and the first exception ends the whole computation.
\<close>

fun mapE :: "('a \<Rightarrow> py_error + 'b) \<Rightarrow> 'a list \<Rightarrow> py_error + 'b list" where
  "mapE f [] = Inr []"
| "mapE f (x # xs) = bindE (f x) (\<lambda>y. bindE (mapE f xs) (\<lambda>ys. Inr (y # ys)))"

text \<open>\<^verbatim>\<open>max(seq)\<close>: \<^verbatim>\<open>ValueError\<close> on an empty sequence.\<close>

fun py_max :: "int list \<Rightarrow> py_error + int" where
  "py_max [] = Inl ValueError"
| "py_max (x # xs) = Inr (fold max xs x)"

text \<open>\<^verbatim>\<open>str(i)\<close> of an integer: decimal digits, with a leading minus sign.\<close>

fun str_nat :: "nat \<Rightarrow> string" where
  "str_nat n = (if n < 10 then [''0123456789'' ! n]
                else str_nat (n div 10) @ [''0123456789'' ! (n mod 10)])"

declare str_nat.simps [simp del]

definition str_int :: "int \<Rightarrow> string" where
  "str_int i = (if i < 0 then CHR ''-'' # str_nat (nat (- i)) else str_nat (nat i))"

section \<open>The normal pin structure\<close>

text \<open>
  A pin is \<^verbatim>\<open>[name, number, type]\<close>; by the module's docstring name and number are each
  a string or an integer, and the type is a string. A group is a list of pins, a side a
  list of groups, and a symbol unit a pair \<^verbatim>\<open>(left, right)\<close> of sides.
\<close>

datatype atom = AStr string | AInt int

type_synonym pin = "atom \<times> atom \<times> string"
type_synonym side = "pin list list"
type_synonym sym_unit = "side \<times> side"

text \<open>\<^verbatim>\<open>str(x)\<close> and \<^verbatim>\<open>len(x)\<close> of a name or number; \<^verbatim>\<open>len\<close> of an integer raises.\<close>

fun py_str :: "atom \<Rightarrow> string" where
  "py_str (AStr s) = s"
| "py_str (AInt i) = str_int i"

fun py_len :: "atom \<Rightarrow> py_error + int" where
  "py_len (AStr s) = Inr (int (length s))"
| "py_len (AInt i) = Inl TypeError"

section \<open>Geometry\<close>

text \<open>
  \<^verbatim>\<open>max([0] + [max(len(str(p[1])) for p in grp) for grp in side])\<close>, one side's part of
  \<^verbatim>\<open>longest_num\<close>.
\<close>

definition side_longest_num :: "side \<Rightarrow> py_error + int" where
  "side_longest_num groups =
     bindE (mapE (\<lambda>grp. py_max (map (\<lambda>(name, num, t). int (length (py_str num))) grp)) groups)
       (\<lambda>ms. py_max (0 # ms))"

definition longest_num :: "sym_unit list \<Rightarrow> py_error + int" where
  "longest_num units =
     bindE (mapE (\<lambda>(left_pins, right_pins).
              bindE (side_longest_num left_pins) (\<lambda>a.
              bindE (side_longest_num right_pins) (\<lambda>b. Inr (max a b)))) units)
       py_max"

text \<open>
  \<^verbatim>\<open>max([0] + [max(len(p[0]) for p in grp) for grp in side])\<close>, one side's part of the
  longest name in \<^verbatim>\<open>geometry\<close>. The name is not passed through \<^verbatim>\<open>str\<close> here.
\<close>

definition side_longest_name :: "side \<Rightarrow> py_error + int" where
  "side_longest_name groups =
     bindE (mapE (\<lambda>grp. bindE (mapE (\<lambda>(name, num, t). py_len name) grp) py_max) groups)
       (\<lambda>ms. py_max (0 # ms))"

definition longest_name :: "sym_unit \<Rightarrow> py_error + int" where
  "longest_name unit =
     (case unit of (left_pins, right_pins) \<Rightarrow>
        bindE (side_longest_name left_pins) (\<lambda>a.
        bindE (side_longest_name right_pins) (\<lambda>b. Inr (max a b))))"

text \<open>The number of pins of a side, \<^verbatim>\<open>sum(len(grp) for grp in side)\<close>.\<close>

definition n_pins :: "side \<Rightarrow> int" where
  "n_pins groups = sum_list (map (\<lambda>grp. int (length grp)) groups)"

text \<open>\<^verbatim>\<open>geometry(unit, longest_num)\<close> returns \<^verbatim>\<open>(width, height, length)\<close>.\<close>

definition geometry :: "sym_unit \<Rightarrow> int \<Rightarrow> py_error + (int \<times> int \<times> int)" where
  "geometry unit longest_num_arg =
     (case unit of (left_pins, right_pins) \<Rightarrow>
        let length = max 100 (longest_num_arg * 50) in
        bindE (longest_name unit) (\<lambda>longest_name.
          let width = (longest_name + 1) * 50;
              width = width + width mod 100;
              width = (if left_pins \<noteq> [] \<and> right_pins \<noteq> [] then width * 2 else width);
              width = (if (width div 2 + length) mod 100 \<noteq> 0
                       then width + 2 * ((width div 2 + length) mod 100) else width);
              n_left_pins = n_pins left_pins;
              n_right_pins = n_pins right_pins;
              n_left_groups = int (List.length left_pins);
              n_right_groups = int (List.length right_pins);
              height = 100 * max (n_left_pins + n_left_groups - 1)
                                 (n_right_pins + n_right_groups - 1);
              height = (if (height div 100) mod 2 = 0 then height + 100 else height)
          in Inr (width, height, length)))"

text \<open>
  The width that \<^verbatim>\<open>geometry\<close> computes, as a function of the longest name, of whether
  both sides are populated and of the stub length (lines 77 to 82 on their own).
\<close>

definition geom_width :: "int \<Rightarrow> bool \<Rightarrow> int \<Rightarrow> int" where
  "geom_width ln both len =
     (let width = (ln + 1) * 50;
          width = width + width mod 100;
          width = (if both then width * 2 else width)
      in (if (width div 2 + len) mod 100 \<noteq> 0
          then width + 2 * ((width div 2 + len) mod 100) else width))"

text \<open>
  The specification's wording of the width before the grid nudge: the text width rounded
  up to a multiple of 200, doubled for a unit with pins on both sides.
\<close>

definition round_up_to :: "int \<Rightarrow> int \<Rightarrow> int" where
  "round_up_to m x = ((x + m - 1) div m) * m"

definition spec_width_base :: "int \<Rightarrow> bool \<Rightarrow> int" where
  "spec_width_base ln both =
     (let w = round_up_to 200 ((ln + 1) * 50) in if both then 2 * w else w)"

text \<open>
  A side whose groups all hold at least one pin and whose pin names are all strings;
  a side without groups is one.
\<close>

definition wf_side :: "side \<Rightarrow> bool" where
  "wf_side groups = (\<forall>grp \<in> set groups. grp \<noteq> [] \<and> (\<forall>(name, num, t) \<in> set grp. \<exists>s. name = AStr s))"

section \<open>Pin normalisation\<close>

text \<open>
  The parsed YAML value of the \<^verbatim>\<open>pins\<close> key: null, a string, an integer, a list or a
  mapping. A mapping is the list of its items in insertion order, so its keys are distinct;
  a key is null, a string or an integer (a list or a mapping is not hashable). Floats and
  booleans have no constructor of their own: in every operation of \<^verbatim>\<open>normalise_pins\<close>
  they behave like an integer (not subscriptable, no length, not iterable, neither
  \<^verbatim>\<open>None\<close> nor a \<^verbatim>\<open>str\<close>), and as a mapping key like the integer they equal.
\<close>

datatype yaml = YNone | YStr string | YInt int | YList "yaml list" | YMap "(yaml \<times> yaml) list"

text \<open>
  \<^verbatim>\<open>x[i]\<close> for \<open>i \<ge> 0\<close>, \<^verbatim>\<open>len(x)\<close> and iteration over \<^verbatim>\<open>x\<close>. A string is
  subscriptable and iterable too, and yields one-character strings. On a mapping
  \<^verbatim>\<open>x[i]\<close> looks up the key \<open>i\<close> and raises \<^verbatim>\<open>KeyError\<close> when it is absent,
  \<^verbatim>\<open>len\<close> counts the keys and iteration yields the keys.
\<close>

fun getitem :: "yaml \<Rightarrow> nat \<Rightarrow> py_error + yaml" where
  "getitem (YList xs) i = (if i < length xs then Inr (xs ! i) else Inl IndexError)"
| "getitem (YStr s) i = (if i < length s then Inr (YStr [s ! i]) else Inl IndexError)"
| "getitem YNone i = Inl TypeError"
| "getitem (YInt n) i = Inl TypeError"
| "getitem (YMap m) i =
     (case map_of m (YInt (int i)) of None \<Rightarrow> Inl KeyError | Some v \<Rightarrow> Inr v)"

fun len_yaml :: "yaml \<Rightarrow> py_error + nat" where
  "len_yaml (YList xs) = Inr (length xs)"
| "len_yaml (YStr s) = Inr (length s)"
| "len_yaml YNone = Inl TypeError"
| "len_yaml (YInt n) = Inl TypeError"
| "len_yaml (YMap m) = Inr (length m)"

fun iter_yaml :: "yaml \<Rightarrow> py_error + yaml list" where
  "iter_yaml (YList xs) = Inr xs"
| "iter_yaml (YStr s) = Inr (map (\<lambda>c. YStr [c]) s)"
| "iter_yaml YNone = Inl TypeError"
| "iter_yaml (YInt n) = Inl TypeError"
| "iter_yaml (YMap m) = Inr (map fst m)"

fun is_str :: "yaml \<Rightarrow> bool" where
  "is_str (YStr s) = True"
| "is_str y = False"

text \<open>
  \<^verbatim>\<open>first_pin_or_grp = pins[0][0][0]\<close>, replaced by \<^verbatim>\<open>pins[1][0][0]\<close> when it is
  \<^verbatim>\<open>None\<close>.
\<close>

definition first_pin_or_grp :: "yaml \<Rightarrow> py_error + yaml" where
  "first_pin_or_grp pins =
     bindE (getitem pins 0) (\<lambda>a. bindE (getitem a 0) (\<lambda>b. bindE (getitem b 0) (\<lambda>f.
       if f = YNone
       then bindE (getitem pins 1) (\<lambda>a. bindE (getitem a 0) (\<lambda>b. getitem b 0))
       else Inr f)))"

text \<open>
  The list that the \<^verbatim>\<open>for unit in pins\<close> loop runs over: \<^verbatim>\<open>[pins]\<close> when
  \<^verbatim>\<open>first_pin_or_grp[0]\<close> is a \<^verbatim>\<open>str\<close>, and \<^verbatim>\<open>pins\<close> itself otherwise.
\<close>

definition unit_list :: "yaml \<Rightarrow> py_error + yaml list" where
  "unit_list pins =
     bindE (first_pin_or_grp pins) (\<lambda>f. bindE (getitem f 0) (\<lambda>f0.
       iter_yaml (if is_str f0 then YList [pins] else pins)))"

text \<open>The body of the loop: the pair appended for one unit, or the exception.\<close>

definition normalise_unit :: "yaml \<Rightarrow> py_error + (yaml \<times> yaml)" where
  "normalise_unit unit =
     bindE (len_yaml unit) (\<lambda>n.
       if n = 1 then bindE (getitem unit 0) (\<lambda>l. Inr (l, YList []))
       else if n = 2 then
         bindE (getitem unit 0) (\<lambda>u0. bindE (getitem u0 0) (\<lambda>u00. bindE (getitem u00 0) (\<lambda>m.
           if m = YNone then bindE (getitem unit 1) (\<lambda>r. Inr (YList [], r))
           else bindE (getitem unit 0) (\<lambda>l. bindE (getitem unit 1) (\<lambda>r. Inr (l, r))))))
       else Inl ValueError)"

definition normalise_pins :: "yaml \<Rightarrow> py_error + (yaml \<times> yaml) list" where
  "normalise_pins pins = bindE (unit_list pins) (mapE normalise_unit)"

text \<open>
  Reading a YAML value as the normal structure that the docstring of
  \<^verbatim>\<open>normalise_pins\<close> describes: a side is a list of groups, a group a list of
  \<^verbatim>\<open>[name, number, type]\<close> pins. \<open>None\<close> when the value is not of that form.
\<close>

fun as_atom :: "yaml \<Rightarrow> atom option" where
  "as_atom (YStr s) = Some (AStr s)"
| "as_atom (YInt i) = Some (AInt i)"
| "as_atom y = None"

fun as_pin :: "yaml \<Rightarrow> pin option" where
  "as_pin (YList [a, b, YStr t]) =
     (case (as_atom a, as_atom b) of (Some x, Some y) \<Rightarrow> Some (x, y, t) | _ \<Rightarrow> None)"
| "as_pin y = None"

fun as_group :: "yaml \<Rightarrow> pin list option" where
  "as_group (YList ps) = those (map as_pin ps)"
| "as_group y = None"

fun as_side :: "yaml \<Rightarrow> side option" where
  "as_side (YList gs) = those (map as_group gs)"
| "as_side y = None"

definition as_unit :: "yaml \<times> yaml \<Rightarrow> sym_unit option" where
  "as_unit u = (case (as_side (fst u), as_side (snd u)) of
                  (Some l, Some r) \<Rightarrow> Some (l, r) | _ \<Rightarrow> None)"

text \<open>The typed normal structure written back as the YAML value it is read from.\<close>

fun yaml_of_atom :: "atom \<Rightarrow> yaml" where
  "yaml_of_atom (AStr s) = YStr s"
| "yaml_of_atom (AInt i) = YInt i"

definition yaml_of_pin :: "pin \<Rightarrow> yaml" where
  "yaml_of_pin p = (case p of (name, num, t) \<Rightarrow> YList [yaml_of_atom name, yaml_of_atom num, YStr t])"

definition yaml_of_side :: "side \<Rightarrow> yaml" where
  "yaml_of_side groups = YList (map (\<lambda>grp. YList (map yaml_of_pin grp)) groups)"

section \<open>Component descriptors\<close>

text \<open>
  A component's configuration dictionary; a key that is absent is \<open>None\<close>, and
  \<^verbatim>\<open>conf[key]\<close> on an absent key raises \<^verbatim>\<open>KeyError\<close>.
\<close>

record conf =
  conf_name :: "string option"
  conf_designator :: "string option"
  conf_footprint :: "string option"
  conf_datasheet :: "string option"
  conf_ordercodes :: "(string \<times> string) list option"
  conf_description :: "string option"
  conf_pins :: "yaml option"

definition item :: "'a option \<Rightarrow> py_error + 'a" where
  "item v = (case v of None \<Rightarrow> Inl KeyError | Some x \<Rightarrow> Inr x)"

definition get_or :: "'a option \<Rightarrow> 'a \<Rightarrow> 'a" where
  "get_or v d = (case v of None \<Rightarrow> d | Some x \<Rightarrow> x)"

section \<open>Field lines\<close>

text \<open>One order-code line: \<^verbatim>\<open>F{idx+4} "{code}" {x} {y} 50 H I L CNN "{supplier}"\<close>.\<close>

definition ordercode_line :: "int \<Rightarrow> int \<Rightarrow> nat \<times> string \<times> string \<Rightarrow> string" where
  \<open>ordercode_line field_x field_y e =
     (case e of (idx, supplier, code) \<Rightarrow>
        ''F'' @ str_int (int idx + 4) @ '' "'' @ code @ ''" '' @ str_int field_x @ '' ''
          @ str_int (- field_y - (300 + int idx * 100)) @ '' 50 H I L CNN "'' @ supplier @ ''"'')\<close>

definition fields :: "conf \<Rightarrow> sym_unit list \<Rightarrow> py_error + string list" where
  \<open>fields conf units =
     bindE (longest_num units) (\<lambda>n.
     bindE (mapE (\<lambda>unit. geometry unit n) units) (\<lambda>geoms.
     bindE (py_max (map (\<lambda>g. fst g) geoms)) (\<lambda>width.
     bindE (py_max (map (\<lambda>g. fst (snd g)) geoms)) (\<lambda>height.
       let field_x = (- width) div 2;
           field_y = height div 2 + 50;
           f0 = ''F0 "'' @ get_or (conf_designator conf) ''IC'' @ ''" '' @ str_int field_x
                  @ '' '' @ str_int field_y @ '' 50 H V L CNN''
       in
       bindE (item (conf_name conf)) (\<lambda>name.
         let f1 = ''F1 "'' @ name @ ''" '' @ str_int field_x @ '' '' @ str_int (- field_y)
                    @ '' 50 H V L CNN'';
             f2 = (case conf_footprint conf of
                     Some footprint \<Rightarrow>
                       ''F2 "'' @ footprint @ ''" '' @ str_int field_x @ '' ''
                         @ str_int (- field_y - 100) @ '' 50 H I L CNN''
                   | None \<Rightarrow>
                       ''F2 "" '' @ str_int field_x @ '' '' @ str_int (- field_y - 100)
                         @ '' 50 H I L CNN'');
             f3 = (case conf_datasheet conf of
                     Some datasheet \<Rightarrow>
                       ''F3 "'' @ datasheet @ ''" '' @ str_int field_x @ '' ''
                         @ str_int (- field_y - 200) @ '' 50 H I L CNN''
                   | None \<Rightarrow>
                       ''F3 "" '' @ str_int field_x @ '' '' @ str_int (- field_y - 200)
                         @ '' 50 H I L CNN'')
         in Inr ([f0, f1, f2, f3]
                  @ map (ordercode_line field_x field_y)
                      (enumerate 0 (get_or (conf_ordercodes conf) []))))))))\<close>

section \<open>Drawing\<close>

definition pin_types :: "string \<Rightarrow> string option" where
  "pin_types = map_of
     [(''in'', ''I''), (''out'', ''O''), (''bidi'', ''B''), (''tri'', ''T''),
      (''passive'', ''P''), (''unspec'', ''U''), (''pwrin'', ''W''), (''pwrout'', ''w''),
      (''oc'', ''C''), (''od'', ''C''), (''oe'', ''E''), (''os'', ''E''), (''nc'', ''N'')]"

text \<open>
  One pin line,
  \<^verbatim>\<open>X {name} {num} {pin_x} {pin_y} {length} {direction} 50 50 {unit_idx} 0 {type}\<close>;
  an electrical type outside \<^verbatim>\<open>pin_types\<close> raises \<^verbatim>\<open>KeyError\<close>.
\<close>

definition pin_line :: "pin \<Rightarrow> int \<Rightarrow> int \<Rightarrow> int \<Rightarrow> string \<Rightarrow> int \<Rightarrow> py_error + string" where
  "pin_line p pin_x pin_y len direction unit_idx =
     (case p of (name, num, t) \<Rightarrow>
        bindE (item (pin_types t)) (\<lambda>code.
          Inr (''X '' @ py_str name @ '' '' @ py_str num @ '' '' @ str_int pin_x @ '' ''
                 @ str_int pin_y @ '' '' @ str_int len @ '' '' @ direction @ '' 50 50 ''
                 @ str_int unit_idx @ '' 0 '' @ code)))"

text \<open>
  The inner loop of \<^verbatim>\<open>draw_pins\<close> over one group: the lines appended and the value
  of \<^verbatim>\<open>pin_y\<close> after the group's last pin.
\<close>

fun draw_group :: "pin list \<Rightarrow> int \<Rightarrow> int \<Rightarrow> int \<Rightarrow> string \<Rightarrow> int \<Rightarrow> py_error + (string list \<times> int)" where
  "draw_group [] pin_x pin_y len direction unit_idx = Inr ([], pin_y)"
| "draw_group (p # ps) pin_x pin_y len direction unit_idx =
     bindE (pin_line p pin_x pin_y len direction unit_idx) (\<lambda>l.
     bindE (draw_group ps pin_x (pin_y - 100) len direction unit_idx) (\<lambda>(ls, y).
       Inr (l # ls, y)))"

text \<open>The outer loop: after each group \<^verbatim>\<open>pin_y\<close> drops by a further 100.\<close>

fun draw_pins :: "side \<Rightarrow> int \<Rightarrow> int \<Rightarrow> string \<Rightarrow> int \<Rightarrow> int \<Rightarrow> py_error + string list" where
  "draw_pins [] x0 y0 direction len unit_idx = Inr []"
| "draw_pins (grp # groups) x0 y0 direction len unit_idx =
     bindE (draw_group grp x0 y0 len direction unit_idx) (\<lambda>(ls, y).
     bindE (draw_pins groups x0 (y - 100) direction len unit_idx) (\<lambda>rest.
       Inr (ls @ rest)))"

text \<open>The box line, \<^verbatim>\<open>S {-width//2} {height//2} {width//2} {-height//2} {unit_idx} 1 0 f\<close>.\<close>

definition box_line :: "int \<Rightarrow> int \<Rightarrow> int \<Rightarrow> string" where
  "box_line width height unit_idx =
     ''S '' @ str_int ((- width) div 2) @ '' '' @ str_int (height div 2) @ '' ''
       @ str_int (width div 2) @ '' '' @ str_int ((- height) div 2) @ '' ''
       @ str_int unit_idx @ '' 1 0 f''"

text \<open>
  The body of the loop of \<^verbatim>\<open>draw\<close> for the unit at position \<open>i\<close> of \<open>n_units\<close>
  units: the box and the pins of both sides.
\<close>

definition draw_unit :: "nat \<Rightarrow> int \<Rightarrow> nat \<times> sym_unit \<Rightarrow> py_error + string list" where
  "draw_unit n_units n e =
     (case e of (i, unit) \<Rightarrow>
        let unit_idx = (if n_units > 1 then int i + 1 else int i) in
        bindE (geometry unit n) (\<lambda>(width, height, len).
          let x0 = (- width) div 2 - len;
              y0 = height div 2 - 50
          in case unit of (left_pins, right_pins) \<Rightarrow>
            bindE (if left_pins \<noteq> [] then draw_pins left_pins x0 y0 ''R'' len unit_idx
                   else Inr []) (\<lambda>l.
            bindE (if right_pins \<noteq> [] then draw_pins right_pins (- x0) y0 ''L'' len unit_idx
                   else Inr []) (\<lambda>r.
              Inr (box_line width height unit_idx # l @ r)))))"

definition draw :: "sym_unit list \<Rightarrow> py_error + string list" where
  "draw units =
     bindE (longest_num units) (\<lambda>n.
     bindE (mapE (draw_unit (length units) n) (enumerate 0 units)) (\<lambda>body.
       Inr ([''DRAW''] @ concat body @ [''ENDDRAW''])))"

text \<open>
  The number of pin lines that precede group \<open>gi\<close> of a side, and the row of pin \<open>j\<close>
  of that group: one row for each earlier pin and one more for each earlier group.
\<close>

definition pins_before :: "side \<Rightarrow> nat \<Rightarrow> nat" where
  "pins_before groups gi = length (concat (take gi groups))"

definition pin_row :: "side \<Rightarrow> nat \<Rightarrow> nat \<Rightarrow> int" where
  "pin_row groups gi j = int (pins_before groups gi + j + gi)"

section \<open>Library\<close>

text \<open>
  The result of assembling: an exception, the text, or \<open>NotNormal\<close> when
  \<^verbatim>\<open>normalise_pins\<close> returned units that are not in the normal structure (what the
  later stages do with such values is not modelled).
\<close>

datatype 'a lib_result = Raises py_error | NotNormal | Returns 'a

definition def_line :: "string \<Rightarrow> string \<Rightarrow> nat \<Rightarrow> string" where
  "def_line name designator n_units =
     (let locked = (if n_units = 1 then ''F'' else ''L'')
      in ''DEF '' @ name @ '' '' @ designator @ '' 0 40 Y Y '' @ str_int (int n_units)
           @ '' '' @ locked @ '' N'')"

text \<open>The entries that one component appends to \<^verbatim>\<open>out\<close>.\<close>

definition library_elm :: "conf \<Rightarrow> string list lib_result" where
  "library_elm elm =
     (case item (conf_pins elm) of Inl e \<Rightarrow> Raises e | Inr pins \<Rightarrow>
     (case normalise_pins pins of Inl e \<Rightarrow> Raises e | Inr units \<Rightarrow>
     (case item (conf_name elm) of Inl e \<Rightarrow> Raises e | Inr name \<Rightarrow>
     (case those (map as_unit units) of None \<Rightarrow> NotNormal | Some typed \<Rightarrow>
     (case bindE (fields elm typed) (\<lambda>f. bindE (draw typed) (\<lambda>d.
             Inr ([''#'' @ [CHR 0x0A] @ ''# '' @ name @ [CHR 0x0A] @ ''#'',
                   def_line name (get_or (conf_designator elm) ''IC'') (length units)]
                  @ f @ d @ [''ENDDEF''])))
      of Inl e \<Rightarrow> Raises e | Inr ls \<Rightarrow> Returns ls)))))"





text \<open>The length of a pin's name, for a name that is a string.\<close>

definition name_len :: "pin \<Rightarrow> int" where
  "name_len p = (case p of (name, num, t) \<Rightarrow> (case name of AStr s \<Rightarrow> int (length s) | AInt i \<Rightarrow> 0))"

text \<open>
  The specification's wording of where the first pin of the left side is drawn: the
  top-left corner of the box, moved outward by the stub length.
\<close>

definition spec_pin_start :: "int \<Rightarrow> int \<Rightarrow> int \<Rightarrow> int \<times> int" where
  "spec_pin_start width height len = ((- width) div 2 - len, height div 2)"

section \<open>Exceptions in sequence\<close>

lemma bindE_Inr_iff: "bindE m f = Inr y \<longleftrightarrow> (\<exists>x. m = Inr x \<and> f x = Inr y)"
  by (cases m) (auto simp: bindE_def)


lemma bindE_Inr [simp]: "bindE (Inr x) f = f x"
  by (simp add: bindE_def)

lemma bindE_Inl [simp]: "bindE (Inl e) f = Inl e"
  by (simp add: bindE_def)

section \<open>Arithmetic of the grid\<close>

lemma mod_100_of_50: "(50 * k) mod 100 = (if even k then 0 else 50 :: int)"
proof -
  have "(50 * k) mod (50 * 2) = 50 * (k mod 2)"
    by (rule mult_mod_right [symmetric])
  then show ?thesis by (simp add: mod_2_eq_odd)
qed

lemma round_100:
  assumes "50 dvd (b::int)"
  shows "100 dvd (b + b mod 100)" and "b + b mod 100 = round_up_to 100 b"
proof -
  from assms obtain k where b: "b = 50 * k" by (auto simp: dvd_def)
  have "100 dvd (b + b mod 100) \<and> b + b mod 100 = round_up_to 100 b"
  proof (cases "even k")
    case True
    then obtain j where "k = 2 * j" by (auto simp: dvd_def)
    with b True show ?thesis by (simp add: mod_100_of_50 round_up_to_def)
  next
    case False
    then obtain j where "k = 2 * j + 1" by (auto elim: oddE)
    with b False show ?thesis by (simp add: mod_100_of_50 round_up_to_def)
  qed
  then show "100 dvd (b + b mod 100)" and "b + b mod 100 = round_up_to 100 b" by blast+
qed

lemma stub_50: "50 dvd max 100 (n * 50 :: int)"
  by (simp add: max_def)

lemma half_plus_stub:
  assumes "100 dvd (w::int)" "50 dvd len"
  shows "(w div 2 + len) mod 100 = 0 \<or> (w div 2 + len) mod 100 = 50"
proof -
  from assms obtain a c where w: "w = 100 * a" and l: "len = 50 * c" by (auto simp: dvd_def)
  have e: "w div 2 + len = 50 * (a + c)" by (simp add: w l)
  show ?thesis unfolding e mod_100_of_50 by simp
qed

lemma nudge_aligned:
  assumes "100 dvd (w::int)" "50 dvd len"
  shows "((if (w div 2 + len) mod 100 \<noteq> 0 then w + 2 * ((w div 2 + len) mod 100) else w) div 2 + len) mod 100 = 0"
proof (cases "(w div 2 + len) mod 100 = 0")
  case True
  then show ?thesis by simp
next
  case False
  with half_plus_stub [OF assms] have r: "(w div 2 + len) mod 100 = 50" by simp
  from assms obtain a c where w: "w = 100 * a" and l: "len = 50 * c" by (auto simp: dvd_def)
  have e: "w div 2 + len = 50 * (a + c)" by (simp add: w l)
  have odd: "odd (a + c)" using r unfolding e mod_100_of_50 by (simp split: if_splits)
  have e2: "(w + 2 * 50) div 2 + len = 50 * (a + c + 1)" by (simp add: w l)
  have "even (a + c + 1)" using odd by simp
  then have "((w + 2 * 50) div 2 + len) mod 100 = 0"
    unfolding e2 mod_100_of_50 by simp
  with r show ?thesis by simp
qed

section \<open>What geometry returns\<close>

lemma geometry_Inr:
  "geometry (l, r) n = Inr (w, h, len) \<Longrightarrow>
     \<exists>ln. longest_name (l, r) = Inr ln \<and> len = max 100 (n * 50) \<and>
       w = geom_width ln (l \<noteq> [] \<and> r \<noteq> []) len \<and>
       h = (let m = max (n_pins l + int (length l) - 1) (n_pins r + int (length r) - 1)
            in if (100 * m div 100) mod 2 = 0 then 100 * m + 100 else 100 * m)"
  unfolding geometry_def bindE_Inr_iff Let_def geom_width_def split_conv
  by (elim exE conjE) (simp only: sum.inject prod.inject, blast)

lemma geometry_returns:
  "longest_name (l, r) = Inr ln \<Longrightarrow> \<exists>w h. geometry (l, r) n = Inr (w, h, max 100 (n * 50))"
  by (simp add: geometry_def Let_def)

lemma geom_width_rounded:
  "geom_width ln both (max 100 (n * 50)) =
     (let base = round_up_to 100 ((ln + 1) * 50);
          d = (if both then 2 * base else base)
      in if (d div 2 + max 100 (n * 50)) mod 100 = 0 then d else d + 100)"
proof -
  define len where "len = max 100 (n * 50)"
  define b where "b = (ln + 1) * 50 + ((ln + 1) * 50) mod 100"
  define d where "d = (if both then b * 2 else b)"
  have b: "100 dvd b" unfolding b_def by (rule round_100) simp
  have br: "b = round_up_to 100 ((ln + 1) * 50)" unfolding b_def by (rule round_100) simp
  have d: "100 dvd d" unfolding d_def using b by (simp add: dvd_mult2)
  have l: "50 dvd len" unfolding len_def by (rule stub_50)
  have gw: "geom_width ln both len =
      (if (d div 2 + len) mod 100 \<noteq> 0 then d + 2 * ((d div 2 + len) mod 100) else d)"
    unfolding geom_width_def Let_def d_def b_def ..
  have "geom_width ln both len = (if (d div 2 + len) mod 100 = 0 then d else d + 100)"
    using half_plus_stub [OF d l] unfolding gw by auto
  moreover have "d = (if both then 2 * round_up_to 100 ((ln + 1) * 50) else round_up_to 100 ((ln + 1) * 50))"
    unfolding d_def br [symmetric] by simp
  ultimately show ?thesis unfolding len_def [symmetric] Let_def by simp
qed

lemma geom_width_aligned: "(geom_width ln both (max 100 (n * 50)) div 2 + max 100 (n * 50)) mod 100 = 0"
proof -
  define len where "len = max 100 (n * 50)"
  define b where "b = (ln + 1) * 50 + ((ln + 1) * 50) mod 100"
  define d where "d = (if both then b * 2 else b)"
  have b: "100 dvd b" unfolding b_def by (rule round_100) simp
  have d: "100 dvd d" unfolding d_def using b by (simp add: dvd_mult2)
  have gw: "geom_width ln both len =
      (if (d div 2 + len) mod 100 \<noteq> 0 then d + 2 * ((d div 2 + len) mod 100) else d)"
    unfolding geom_width_def Let_def d_def b_def ..
  have l: "50 dvd len" unfolding len_def by (rule stub_50)
  show ?thesis unfolding len_def [symmetric] gw by (rule nudge_aligned [OF d l])
qed

lemma scenario_a_geometry:
  "geometry ([[(AStr ''A'', AInt 1, ''in''), (AStr ''B'', AInt 2, ''in'')]], []) 1 = Inr (200, 300, 100)"
  by (simp add: geometry_def longest_name_def side_longest_name_def n_pins_def Let_def)

text \<open>
  Claim C1. Whenever \<^verbatim>\<open>geometry\<close> returns \<^verbatim>\<open>(width, height, length)\<close>, for any unit
  and any longest-number length, half the width plus the stub length is a multiple of 100.
\<close>

theorem grid_alignment:
  assumes "geometry unit n = Inr (w, h, len)"
  shows "(w div 2 + len) mod 100 = 0"
proof -
  obtain l r where u: "unit = (l, r)" by (cases unit)
  from geometry_Inr [OF assms [unfolded u]]
  obtain ln where "len = max 100 (n * 50)" "w = geom_width ln (l \<noteq> [] \<and> r \<noteq> []) len"
    by blast
  then show ?thesis by (simp only: geom_width_aligned)
qed

theorem grid_alignment_witness:
  "geometry ([[(AStr ''A'', AInt 1, ''in''), (AStr ''B'', AInt 2, ''in'')]], []) 1 = Inr (200, 300, 100)
   \<and> ((200::int) div 2 + 100) mod 100 = 0"
  using scenario_a_geometry grid_alignment [OF scenario_a_geometry] by simp

lemma n_pins_concat: "n_pins groups = int (length (concat groups))"
  by (induction groups) (simp_all add: n_pins_def)

lemma two_group_geometry:
  "geometry ([[(AStr ''A'', AInt 1, ''in''), (AStr ''B'', AInt 2, ''in'')], [(AStr ''C'', AInt 3, ''in'')]],
             [[(AStr ''Y'', AInt 4, ''out'')]]) 1 = Inr (200, 500, 100)"
  by (simp add: geometry_def longest_name_def side_longest_name_def n_pins_def Let_def)

text \<open>
  Claim C2. The height that \<^verbatim>\<open>geometry\<close> returns is 100 times the larger of the two
  sides' row counts, a side's row count being the number of its pins (over all its groups)
  plus the number of its groups minus one, with 100 added when that row count is even; so
  it is an odd multiple of 100.
\<close>

theorem height_odd_rows:
  assumes "geometry (l, r) n = Inr (w, h, len)"
  shows "h = (let rows = max (int (length (concat l)) + int (length l) - 1)
                             (int (length (concat r)) + int (length r) - 1)
              in if even rows then 100 * rows + 100 else 100 * rows)
         \<and> h mod 100 = 0 \<and> odd (h div 100)"
proof -
  define rows where "rows = max (int (length (concat l)) + int (length l) - 1)
                               (int (length (concat r)) + int (length r) - 1)"
  from geometry_Inr [OF assms]
  have "h = (if (100 * rows div 100) mod 2 = 0 then 100 * rows + 100 else 100 * rows)"
    unfolding rows_def Let_def n_pins_concat by blast
  then have h: "h = (if even rows then 100 * (rows + 1) else 100 * rows)"
    by (simp add: even_iff_mod_2_eq_zero algebra_simps)
  show ?thesis
  proof (cases "even rows")
    case True
    with h have "h = 100 * (rows + 1)" by simp
    with True show ?thesis unfolding rows_def [symmetric] Let_def by simp
  next
    case False
    with h have "h = 100 * rows" by simp
    with False show ?thesis unfolding rows_def [symmetric] Let_def by simp
  qed
qed

theorem height_odd_rows_witness:
  "geometry ([[(AStr ''A'', AInt 1, ''in''), (AStr ''B'', AInt 2, ''in'')], [(AStr ''C'', AInt 3, ''in'')]],
             [[(AStr ''Y'', AInt 4, ''out'')]]) 1 = Inr (200, 500, 100)
   \<and> (500::int) = 100 * max (3 + 2 - 1) (1 + 1 - 1) + 100
   \<and> (500::int) mod 100 = 0 \<and> odd ((500::int) div 100)"
proof -
  let ?l = "[[(AStr ''A'', AInt 1, ''in''), (AStr ''B'', AInt 2, ''in'')], [(AStr ''C'', AInt 3, ''in'')]]"
  let ?r = "[[(AStr ''Y'', AInt 4, ''out'')]]"
  let ?rows = "max (int (length (concat ?l)) + int (length ?l) - 1)
                   (int (length (concat ?r)) + int (length ?r) - 1)"
  from height_odd_rows [OF two_group_geometry]
  have f: "(500::int) = (let rows = ?rows in if even rows then 100 * rows + 100 else 100 * rows)"
    and m: "(500::int) mod 100 = 0 \<and> odd ((500::int) div 100)" by blast+
  have "(let rows = ?rows in if even rows then 100 * rows + 100 else 100 * rows)
          = 100 * max (3 + 2 - 1) (1 + 1 - 1) + 100"
    by (simp add: Let_def)
  with f have "(500::int) = 100 * max (3 + 2 - 1) (1 + 1 - 1) + 100" by (rule trans)
  with m show ?thesis using two_group_geometry by blast
qed

text \<open>
  Claim C3, as amended. The width that \<^verbatim>\<open>geometry\<close> returns is the text width
  \<open>(longest name + 1) * 50\<close> rounded up to a multiple of 100 (not of 200), doubled when
  both sides have groups, and then increased by 100 exactly when half of it plus the stub
  length is not a multiple of 100.
\<close>

theorem width_formula:
  assumes "geometry (l, r) n = Inr (w, h, len)"
  shows "\<exists>ln. longest_name (l, r) = Inr ln \<and>
           w = (let base = round_up_to 100 ((ln + 1) * 50);
                    d = (if l \<noteq> [] \<and> r \<noteq> [] then 2 * base else base)
                in if (d div 2 + len) mod 100 = 0 then d else d + 100)"
proof -
  from geometry_Inr [OF assms]
  obtain ln where ln: "longest_name (l, r) = Inr ln" and len: "len = max 100 (n * 50)"
    and w: "w = geom_width ln (l \<noteq> [] \<and> r \<noteq> []) len"
    by blast
  from w have "w = (let base = round_up_to 100 ((ln + 1) * 50);
                    d = (if l \<noteq> [] \<and> r \<noteq> [] then 2 * base else base)
                in if (d div 2 + len) mod 100 = 0 then d else d + 100)"
    unfolding len by (simp only: geom_width_rounded)
  with ln show ?thesis by blast
qed

theorem width_formula_witness:
  "geometry ([[(AStr ''A'', AInt 1, ''in''), (AStr ''B'', AInt 2, ''in'')]], []) 1 = Inr (200, 300, 100)
   \<and> (\<exists>ln. longest_name ([[(AStr ''A'', AInt 1, ''in''), (AStr ''B'', AInt 2, ''in'')]], []) = Inr ln \<and>
         (200::int) = (let base = round_up_to 100 ((ln + 1) * 50); d = base
                       in if (d div 2 + 100) mod 100 = 0 then d else d + 100))"
  using scenario_a_geometry width_formula [OF scenario_a_geometry] by simp

text \<open>
  The claim as the specification words it fails for a left-only unit with a one-character
  name and a three-character pin number: the specification's base width is 200, the width
  returned is 100.
\<close>

theorem width_round_200_counterexample:
  "longest_num [([[(AStr ''A'', AStr ''100'', ''in'')]], [])] = Inr 3
   \<and> geometry ([[(AStr ''A'', AStr ''100'', ''in'')]], []) 3 = Inr (100, 100, 150)
   \<and> \<not> spec_width_base 1 False \<le> 100"
  by (simp add: geometry_def longest_name_def side_longest_name_def n_pins_def Let_def
      longest_num_def side_longest_num_def spec_width_base_def round_up_to_def)

section \<open>Sides without groups\<close>

lemma fold_max_ge: "x \<le> fold max xs (x::int)"
  by (induction xs arbitrary: x) (auto intro: order_trans [OF max.cobounded2])

lemma py_max_Cons_0: "\<exists>m. py_max (0 # ms) = Inr m \<and> 0 \<le> m"
  by (simp add: fold_max_ge)

lemma mapE_total:
  assumes "\<forall>x \<in> set xs. \<exists>y. f x = Inr y"
  shows "\<exists>ys. mapE f xs = Inr ys \<and> length ys = length xs"
  using assms
proof (induction xs)
  case Nil
  then show ?case by simp
next
  case (Cons x xs)
  from Cons.prems obtain y where y: "f x = Inr y" by auto
  from Cons obtain ys where "mapE f xs = Inr ys" "length ys = length xs" by auto
  with y show ?case by simp
qed

lemma side_longest_name_wf:
  assumes "wf_side groups"
  shows "\<exists>m. side_longest_name groups = Inr m \<and> 0 \<le> m"
proof -
  have "\<exists>y. bindE (mapE (\<lambda>(name, num, t). py_len name) grp) py_max = Inr y"
    if grp: "grp \<in> set groups" for grp
  proof -
    from assms grp have ne: "grp \<noteq> []" and str: "\<forall>(name, num, t) \<in> set grp. \<exists>s. name = AStr s"
      unfolding wf_side_def by auto
    have "\<forall>p \<in> set grp. \<exists>y. (case p of (name, num, t) \<Rightarrow> py_len name) = Inr y"
      using str by auto
    then have "\<exists>ys. mapE (\<lambda>(name, num, t). py_len name) grp = Inr ys \<and> length ys = length grp"
      by (rule mapE_total)
    then obtain ys where ys: "mapE (\<lambda>(name, num, t). py_len name) grp = Inr ys"
      and "length ys = length grp" by blast
    with ne have "ys \<noteq> []" by auto
    then obtain z zs where "ys = z # zs" by (cases ys) auto
    with ys show ?thesis by simp
  qed
  then have "\<forall>grp \<in> set groups. \<exists>y. bindE (mapE (\<lambda>(name, num, t). py_len name) grp) py_max = Inr y"
    by blast
  from mapE_total [OF this]
  obtain ms where "mapE (\<lambda>grp. bindE (mapE (\<lambda>(name, num, t). py_len name) grp) py_max) groups = Inr ms"
    by blast
  then show ?thesis
    unfolding side_longest_name_def using py_max_Cons_0 [of ms] by simp
qed

lemma side_longest_num_wf:
  assumes "wf_side groups"
  shows "\<exists>m. side_longest_num groups = Inr m \<and> 0 \<le> m"
proof -
  have "\<exists>y. py_max (map (\<lambda>(name, num, t). int (length (py_str num))) grp) = Inr y"
    if grp: "grp \<in> set groups" for grp
  proof -
    from assms grp have "grp \<noteq> []" unfolding wf_side_def by auto
    then obtain p ps where "grp = p # ps" by (cases grp) auto
    then show ?thesis by simp
  qed
  then have "\<forall>grp \<in> set groups. \<exists>y. py_max (map (\<lambda>(name, num, t). int (length (py_str num))) grp) = Inr y"
    by blast
  from mapE_total [OF this]
  obtain ms where "mapE (\<lambda>grp. py_max (map (\<lambda>(name, num, t). int (length (py_str num))) grp)) groups = Inr ms"
    by blast
  then show ?thesis
    unfolding side_longest_num_def using py_max_Cons_0 [of ms] by simp
qed

lemma side_longest_empty: "side_longest_name [] = Inr 0" "side_longest_num [] = Inr 0"
  by (simp_all add: side_longest_name_def side_longest_num_def)

lemma side_longest_name_nonneg: "side_longest_name groups = Inr m \<Longrightarrow> 0 \<le> m"
  unfolding side_longest_name_def bindE_Inr_iff using fold_max_ge [of 0] by auto

lemma longest_name_empty_right: "longest_name (l, []) = side_longest_name l"
proof (cases "side_longest_name l")
  case (Inl e)
  then show ?thesis by (simp add: longest_name_def)
next
  case (Inr m)
  with side_longest_name_nonneg [OF Inr] show ?thesis
    by (simp add: longest_name_def side_longest_empty)
qed

lemma longest_name_empty_left: "longest_name ([], r) = side_longest_name r"
proof (cases "side_longest_name r")
  case (Inl e)
  then show ?thesis by (simp add: longest_name_def side_longest_empty)
next
  case (Inr m)
  with side_longest_name_nonneg [OF Inr] show ?thesis
    by (simp add: longest_name_def side_longest_empty)
qed

lemma longest_name_wf:
  assumes "wf_side l" "wf_side r"
  shows "\<exists>m. longest_name (l, r) = Inr m"
  using side_longest_name_wf [OF assms(1)] side_longest_name_wf [OF assms(2)]
  by (auto simp: longest_name_def)

lemma longest_num_wf:
  assumes "units \<noteq> []" "\<forall>(l, r) \<in> set units. wf_side l \<and> wf_side r"
  shows "\<exists>m. longest_num units = Inr m"
proof -
  let ?f = "\<lambda>(left_pins, right_pins).
              bindE (side_longest_num left_pins) (\<lambda>a.
              bindE (side_longest_num right_pins) (\<lambda>b. Inr (max a b)))"
  have "\<exists>y. ?f u = Inr y" if "u \<in> set units" for u
  proof -
    obtain l r where u: "u = (l, r)" by (cases u)
    with assms(2) that have "wf_side l" "wf_side r" by auto
    from side_longest_num_wf [OF this(1)] side_longest_num_wf [OF this(2)]
    show ?thesis unfolding u by auto
  qed
  then have "\<forall>u \<in> set units. \<exists>y. ?f u = Inr y" by blast
  from mapE_total [OF this]
  obtain ys where ys: "mapE ?f units = Inr ys" and "length ys = length units" by blast
  with assms(1) have "ys \<noteq> []" by auto
  then obtain z zs where "ys = z # zs" by (cases ys) auto
  with ys show ?thesis unfolding longest_num_def by simp
qed

section \<open>The maxima as maxima over all pins\<close>

lemma py_max_Cons: "py_max (x # xs) = Inr (Max (set (x # xs)))"
  by (simp only: py_max.simps Max.set_eq_fold)

lemma py_max_Max: "xs \<noteq> [] \<Longrightarrow> py_max xs = Inr (Max (set xs))"
  by (cases xs) (simp_all only: py_max_Cons list.simps)

lemma mapE_map:
  assumes "\<forall>x \<in> set xs. f x = Inr (g x)"
  shows "mapE f xs = Inr (map g xs)"
  using assms by (induction xs) simp_all

lemma Max_insert_0_Un:
  assumes "finite A" "finite B"
  shows "max (Max (insert (0::int) A)) (Max (insert 0 B)) = Max (insert 0 (A \<union> B))"
proof -
  have "Max (insert 0 A \<union> insert 0 B) = max (Max (insert 0 A)) (Max (insert 0 B))"
    by (rule Max_Un) (use assms in simp_all)
  moreover have "insert 0 A \<union> insert 0 B = insert 0 (A \<union> B)" by blast
  ultimately show ?thesis by simp
qed

lemma Max_groups:
  assumes "\<forall>g \<in> set groups. g \<noteq> []"
  shows "Max (insert 0 (set (map (\<lambda>g. Max (f ` set g)) groups)))
           = Max (insert (0::int) (f ` set (concat groups)))"
  using assms
proof (induction groups)
  case Nil
  then show ?case by simp
next
  case (Cons g gs)
  let ?S = "set (map (\<lambda>g. Max (f ` set g)) gs)"
  from Cons.prems have g: "g \<noteq> []" and gs: "\<forall>g \<in> set gs. g \<noteq> []" by simp_all
  have "Max (insert 0 (set (map (\<lambda>g. Max (f ` set g)) (g # gs))))
          = Max (insert (Max (f ` set g)) (insert 0 ?S))"
    by (simp add: insert_commute)
  also have "\<dots> = max (Max (f ` set g)) (Max (insert 0 ?S))"
    by (rule Max_insert) simp_all
  also have "\<dots> = max (Max (f ` set g)) (Max (insert 0 (f ` set (concat gs))))"
    using Cons.IH [OF gs] by simp
  also have "\<dots> = Max (f ` set g \<union> insert 0 (f ` set (concat gs)))"
    by (rule Max_Un [symmetric]) (use g in simp_all)
  also have "f ` set g \<union> insert 0 (f ` set (concat gs)) = insert 0 (f ` set (concat (g # gs)))"
    by auto
  finally show ?case .
qed

lemma Max_units:
  assumes "units \<noteq> []" "\<forall>u \<in> set units. finite (F u)"
  shows "Max (set (map (\<lambda>u. Max (insert 0 (F u))) units))
           = Max (insert (0::int) (\<Union>u \<in> set units. F u))"
  using assms
proof (induction units rule: list_nonempty_induct)
  case (single u)
  then show ?case by simp
next
  case (cons u us)
  let ?S = "set (map (\<lambda>u. Max (insert 0 (F u))) us)"
  from cons.prems have fu: "finite (F u)" and fus: "\<forall>u \<in> set us. finite (F u)" by simp_all
  from cons.hyps(1) have ne: "?S \<noteq> {}" by simp
  have "Max (set (map (\<lambda>u. Max (insert 0 (F u))) (u # us))) = Max (insert (Max (insert 0 (F u))) ?S)"
    by simp
  also have "\<dots> = max (Max (insert 0 (F u))) (Max ?S)"
    by (rule Max_insert) (use ne in simp_all)
  also have "\<dots> = max (Max (insert 0 (F u))) (Max (insert 0 (\<Union>u \<in> set us. F u)))"
    using cons.IH [OF fus] by simp
  also have "\<dots> = Max (insert 0 (F u \<union> (\<Union>u \<in> set us. F u)))"
    by (rule Max_insert_0_Un) (use fu fus in simp_all)
  also have "F u \<union> (\<Union>u \<in> set us. F u) = (\<Union>u \<in> set (u # us). F u)" by simp
  finally show ?case .
qed

lemma side_longest_num_Max:
  assumes "\<forall>grp \<in> set groups. grp \<noteq> []"
  shows "side_longest_num groups
           = Inr (Max (insert 0 ((\<lambda>(name, num, t). int (length (py_str num))) ` set (concat groups))))"
proof -
  let ?f = "\<lambda>(name, num, t). int (length (py_str num))"
  have "\<forall>grp \<in> set groups. py_max (map ?f grp) = Inr (Max (?f ` set grp))"
    using assms by (auto simp: py_max_Max)
  then have "mapE (\<lambda>grp. py_max (map ?f grp)) groups = Inr (map (\<lambda>grp. Max (?f ` set grp)) groups)"
    by (rule mapE_map)
  then have "side_longest_num groups
               = Inr (Max (insert 0 (set (map (\<lambda>grp. Max (?f ` set grp)) groups))))"
    unfolding side_longest_num_def by (simp add: py_max_Cons del: py_max.simps)
  then show ?thesis unfolding Max_groups [OF assms] .
qed

lemma side_longest_name_Max:
  assumes "\<forall>grp \<in> set groups. grp \<noteq> []"
    and "\<forall>grp \<in> set groups. \<forall>(name, num, t) \<in> set grp. \<exists>s. name = AStr s"
  shows "side_longest_name groups = Inr (Max (insert 0 (name_len ` set (concat groups))))"
proof -
  have "bindE (mapE (\<lambda>(name, num, t). py_len name) grp) py_max = Inr (Max (name_len ` set grp))"
    if grp: "grp \<in> set groups" for grp
  proof -
    from assms grp have ne: "grp \<noteq> []"
      and str: "\<forall>(name, num, t) \<in> set grp. \<exists>s. name = AStr s" by auto
    have "\<forall>p \<in> set grp. (case p of (name, num, t) \<Rightarrow> py_len name) = Inr (name_len p)"
      using str by (auto simp: name_len_def)
    then have "mapE (\<lambda>(name, num, t). py_len name) grp = Inr (map name_len grp)"
      by (rule mapE_map)
    with ne show ?thesis by (simp add: py_max_Max)
  qed
  then have "\<forall>grp \<in> set groups.
      bindE (mapE (\<lambda>(name, num, t). py_len name) grp) py_max = Inr (Max (name_len ` set grp))"
    by blast
  then have "mapE (\<lambda>grp. bindE (mapE (\<lambda>(name, num, t). py_len name) grp) py_max) groups
               = Inr (map (\<lambda>grp. Max (name_len ` set grp)) groups)"
    by (rule mapE_map)
  then have "side_longest_name groups
               = Inr (Max (insert 0 (set (map (\<lambda>grp. Max (name_len ` set grp)) groups))))"
    unfolding side_longest_name_def by (simp add: py_max_Cons del: py_max.simps)
  then show ?thesis unfolding Max_groups [OF assms(1)] .
qed

lemma geometry_raises: "longest_name (l, r) = Inl e \<Longrightarrow> geometry (l, r) n = Inl e"
  unfolding geometry_def split_conv Let_def by (simp only: bindE_Inl)

lemma name_len_image:
  assumes "\<forall>(name, num, t) \<in> S. \<exists>s. name = AStr s"
  shows "name_len ` S = {int (length s) | s. \<exists>num t. (AStr s, num, t) \<in> S}"
proof (intro set_eqI iffI)
  fix x assume "x \<in> name_len ` S"
  then obtain p where p: "p \<in> S" and x: "x = name_len p" by blast
  obtain name num t where pt: "p = (name, num, t)" by (cases p)
  with assms p obtain s where "name = AStr s" by auto
  with p pt x show "x \<in> {int (length s) | s. \<exists>num t. (AStr s, num, t) \<in> S}"
    by (auto simp: name_len_def)
next
  fix x assume "x \<in> {int (length s) | s. \<exists>num t. (AStr s, num, t) \<in> S}"
  then obtain s num t where "(AStr s, num, t) \<in> S" "x = int (length s)" by blast
  then have "(AStr s, num, t) \<in> S" "x = name_len (AStr s, num, t)"
    by (simp_all add: name_len_def)
  then show "x \<in> name_len ` S" by blast
qed

lemma longest_name_one_side:
  assumes "l = [] \<or> r = []"
    and "\<forall>grp \<in> set (l @ r). grp \<noteq> []"
    and "\<forall>grp \<in> set (l @ r). \<forall>(name, num, t) \<in> set grp. \<exists>s. name = AStr s"
  shows "longest_name (l, r)
           = Inr (Max (insert 0 {int (length s) | s.
                    \<exists>num t. (AStr s, num, t) \<in> set (concat (if r = [] then l else r))}))"
proof -
  define side where "side = (if r = [] then l else r)"
  from assms(1) have ln: "longest_name (l, r) = side_longest_name side"
    unfolding side_def by (auto simp: longest_name_empty_right longest_name_empty_left)
  from assms(2) have ne: "\<forall>grp \<in> set side. grp \<noteq> []" unfolding side_def by auto
  from assms(3) have str: "\<forall>grp \<in> set side. \<forall>(name, num, t) \<in> set grp. \<exists>s. name = AStr s"
    unfolding side_def by auto
  then have "\<forall>(name, num, t) \<in> set (concat side). \<exists>s. name = AStr s" by auto
  from name_len_image [OF this] side_longest_name_Max [OF ne str] ln
  show ?thesis unfolding side_def by simp
qed

lemma longest_num_Max:
  assumes "units \<noteq> []" and "\<forall>(l, r) \<in> set units. \<forall>grp \<in> set (l @ r). grp \<noteq> []"
  shows "longest_num units
           = Inr (Max (insert 0 ((\<lambda>(name, num, t). int (length (py_str num)))
                    ` (\<Union>(l, r) \<in> set units. set (concat (l @ r))))))"
proof -
  let ?f = "\<lambda>(name, num, t). int (length (py_str num))"
  let ?F = "\<lambda>u. ?f ` set (concat (fst u @ snd u))"
  let ?body = "\<lambda>(left_pins, right_pins).
              bindE (side_longest_num left_pins) (\<lambda>a.
              bindE (side_longest_num right_pins) (\<lambda>b. Inr (max a b)))"
  have "\<forall>u \<in> set units. ?body u = Inr (Max (insert 0 (?F u)))"
  proof
    fix u assume u: "u \<in> set units"
    obtain l r where lr: "u = (l, r)" by (cases u)
    with u assms(2) have l: "\<forall>grp \<in> set l. grp \<noteq> []" and r: "\<forall>grp \<in> set r. grp \<noteq> []"
      by auto
    have "max (Max (insert 0 (?f ` set (concat l)))) (Max (insert 0 (?f ` set (concat r))))
            = Max (insert 0 (?f ` set (concat l) \<union> ?f ` set (concat r)))"
      by (rule Max_insert_0_Un) simp_all
    also have "?f ` set (concat l) \<union> ?f ` set (concat r) = ?F (l, r)"
      by (simp add: image_Un)
    finally show "?body u = Inr (Max (insert 0 (?F u)))"
      unfolding lr by (simp add: side_longest_num_Max [OF l] side_longest_num_Max [OF r])
  qed
  then have "mapE ?body units = Inr (map (\<lambda>u. Max (insert 0 (?F u))) units)"
    by (rule mapE_map)
  moreover from assms(1) have "map (\<lambda>u. Max (insert 0 (?F u))) units \<noteq> []" by simp
  ultimately have "longest_num units = Inr (Max (set (map (\<lambda>u. Max (insert 0 (?F u))) units)))"
    unfolding longest_num_def by (simp add: py_max_Max)
  also have "Max (set (map (\<lambda>u. Max (insert 0 (?F u))) units)) = Max (insert 0 (\<Union>u \<in> set units. ?F u))"
    by (rule Max_units [OF assms(1)]) simp
  also have "(\<Union>u \<in> set units. ?F u) = ?f ` (\<Union>(l, r) \<in> set units. set (concat (l @ r)))"
    by (simp only: image_UN case_prod_beta)
  finally show ?thesis .
qed

text \<open>
  Claim C8, as amended. Take a unit with no groups on one side or on both, in a component
  none of whose groups is empty, the names of the unit's own pins being strings. Then
  \<^verbatim>\<open>longest_num\<close> returns the largest rendered pin-number length of the component (0
  when there is no pin), \<^verbatim>\<open>geometry\<close> returns for the unit, and the unit's longest
  name is the largest name length on its other side (0 when that side has no groups
  either): a side without groups contributes 0 to both maxima.
\<close>

theorem empty_side_safe:
  assumes "(l, r) \<in> set units" and "l = [] \<or> r = []"
    and "\<forall>(l', r') \<in> set units. \<forall>grp \<in> set (l' @ r'). grp \<noteq> []"
    and "\<forall>grp \<in> set (l @ r). \<forall>(name, num, t) \<in> set grp. \<exists>s. name = AStr s"
  shows "longest_num units
           = Inr (Max (insert 0 ((\<lambda>(name, num, t). int (length (py_str num)))
                    ` (\<Union>(l', r') \<in> set units. set (concat (l' @ r'))))))
       \<and> (\<forall>n. \<exists>w h len. geometry (l, r) n = Inr (w, h, len))
       \<and> longest_name (l, r)
           = Inr (Max (insert 0 {int (length s) | s.
                    \<exists>num t. (AStr s, num, t) \<in> set (concat (if r = [] then l else r))}))
       \<and> side_longest_name [] = Inr 0 \<and> side_longest_num [] = Inr 0"
proof -
  from assms(1) have ne: "units \<noteq> []" by auto
  note 1 = longest_num_Max [OF ne assms(3)]
  from assms(1,3) have g: "\<forall>grp \<in> set (l @ r). grp \<noteq> []" by auto
  note 3 = longest_name_one_side [OF assms(2) g assms(4)]
  have 2: "\<forall>n. \<exists>w h len. geometry (l, r) n = Inr (w, h, len)"
    using geometry_returns [OF 3] by blast
  from 1 2 3 show ?thesis by (simp only: side_longest_empty simp_thms)
qed

theorem empty_side_safe_witness:
  "longest_num [([], [[(AStr ''A'', AInt 1, ''in'')]]), ([], [])] = Inr 1
   \<and> Max (insert 0 ((\<lambda>(name, num, t). int (length (py_str num)))
          ` (\<Union>(l', r') \<in> set [([], [[(AStr ''A'', AInt 1, ''in'')]]), ([], [])].
               set (concat (l' @ r'))))) = 1
   \<and> (\<forall>n. \<exists>w h len. geometry ([], [[(AStr ''A'', AInt 1, ''in'')]]) n = Inr (w, h, len))
   \<and> geometry ([], [[(AStr ''A'', AInt 1, ''in'')]]) 1 = Inr (200, 100, 100)"
proof -
  let ?R = "[[(AStr ''A'', AInt 1, ''in'')]]"
  let ?U = "[([], ?R), ([], [])]"
  let ?f = "\<lambda>(name, num, t). int (length (py_str num))"
  have h1: "([], ?R) \<in> set ?U" by simp
  have h2: "([]::side) = [] \<or> ?R = []" by simp
  have h3: "\<forall>(l', r') \<in> set ?U. \<forall>grp \<in> set (l' @ r'). grp \<noteq> []" by simp
  have h4: "\<forall>grp \<in> set ([] @ ?R). \<forall>(name, num, t) \<in> set grp. \<exists>s. name = AStr s" by simp
  note t = empty_side_safe [OF h1 h2 h3 h4]
  from t have a: "longest_num ?U
      = Inr (Max (insert 0 (?f ` (\<Union>(l', r') \<in> set ?U. set (concat (l' @ r'))))))"
    by (rule conjunct1)
  have e: "longest_num ?U = Inr 1"
    by (simp add: longest_num_def side_longest_num_def str_int_def str_nat.simps)
  from a have "Inr 1 = (Inr (Max (insert 0 (?f ` (\<Union>(l', r') \<in> set ?U. set (concat (l' @ r')))))) :: py_error + int)"
    unfolding e .
  then have m: "Max (insert 0 (?f ` (\<Union>(l', r') \<in> set ?U. set (concat (l' @ r'))))) = 1"
    by (simp only: sum.inject)
  from t have g: "\<forall>n. \<exists>w h len. geometry ([], ?R) n = Inr (w, h, len)"
    by (rule conjunct2 [THEN conjunct1])
  have v: "geometry ([], ?R) 1 = Inr (200, 100, 100)"
    by (simp add: geometry_def longest_name_def side_longest_name_def n_pins_def Let_def)
  show ?thesis by (rule conjI [OF e conjI [OF m conjI [OF g v]]])
qed

text \<open>
  The claim as stated fails: in the left-only unit whose second group is empty the right
  side has no groups, and both \<^verbatim>\<open>longest_num\<close> and \<^verbatim>\<open>geometry\<close> raise the
  \<^verbatim>\<open>ValueError\<close> of \<^verbatim>\<open>max\<close> on an empty sequence. \<^verbatim>\<open>normalise_pins\<close> passes such a
  unit on unchanged.
\<close>

theorem empty_side_raises_counterexample:
  "normalise_pins (YList [YList [YList [YList [YStr ''A'', YInt 1, YStr ''in'']], YList []]])
     = Inr [(YList [YList [YList [YStr ''A'', YInt 1, YStr ''in'']], YList []], YList [])]
   \<and> as_unit (YList [YList [YList [YStr ''A'', YInt 1, YStr ''in'']], YList []], YList [])
     = Some ([[(AStr ''A'', AInt 1, ''in'')], []], [])
   \<and> longest_num [([[(AStr ''A'', AInt 1, ''in'')], []], [])] = Inl ValueError
   \<and> geometry ([[(AStr ''A'', AInt 1, ''in'')], []], []) 1 = Inl ValueError"
proof -
  have a: "normalise_pins (YList [YList [YList [YList [YStr ''A'', YInt 1, YStr ''in'']], YList []]])
     = Inr [(YList [YList [YList [YStr ''A'', YInt 1, YStr ''in'']], YList []], YList [])]"
    by (simp add: normalise_pins_def unit_list_def first_pin_or_grp_def normalise_unit_def)
  have b: "as_unit (YList [YList [YList [YStr ''A'', YInt 1, YStr ''in'']], YList []], YList [])
     = Some ([[(AStr ''A'', AInt 1, ''in'')], []], [])"
    by (simp add: as_unit_def)
  have c: "longest_num [([[(AStr ''A'', AInt 1, ''in'')], []], [])] = Inl ValueError"
    by (simp add: longest_num_def side_longest_num_def)
  have "longest_name ([[(AStr ''A'', AInt 1, ''in'')], []], []) = Inl ValueError"
    by (simp add: longest_name_def side_longest_name_def)
  then have d: "geometry ([[(AStr ''A'', AInt 1, ''in'')], []], []) 1 = Inl ValueError"
    by (rule geometry_raises)
  show ?thesis by (rule conjI [OF a conjI [OF b conjI [OF c d]]])
qed

text \<open>
  Claim C10. For a unit without groups on either side \<^verbatim>\<open>geometry\<close> returns the height
  \<open>-100\<close>, and the box line that \<^verbatim>\<open>draw\<close> emits for it has the top edge at \<open>-50\<close>
  and the bottom edge at \<open>50\<close>.
\<close>

theorem empty_unit_negative_height:
  "\<exists>w len. geometry ([], []) n = Inr (w, - 100, len) \<and>
     draw_unit k n (i, ([], [])) =
       Inr [''S '' @ str_int ((- w) div 2) @ '' -50 '' @ str_int (w div 2) @ '' 50 ''
              @ str_int (if k > 1 then int i + 1 else int i) @ '' 1 0 f'']"
proof -
  have ln: "longest_name ([], []) = Inr 0"
    by (simp add: longest_name_def side_longest_empty)
  have "\<exists>w len. geometry ([], []) n = Inr (w, - 100, len)"
    by (simp add: geometry_def ln n_pins_def Let_def)
  then obtain w len where g: "geometry ([], []) n = Inr (w, - 100, len)" by blast
  have s: "str_int (- 50) = ''-50''" "str_int 50 = ''50''"
    by (simp_all add: str_int_def str_nat.simps)
  have "draw_unit k n (i, ([], [])) =
       Inr [''S '' @ str_int ((- w) div 2) @ '' -50 '' @ str_int (w div 2) @ '' 50 ''
              @ str_int (if k > 1 then int i + 1 else int i) @ '' 1 0 f'']"
    by (simp add: draw_unit_def g box_line_def s Let_def)
  with g show ?thesis by blast
qed

section \<open>Normalisation\<close>


lemma mapE_length: "mapE f xs = Inr ys \<Longrightarrow> length ys = length xs"
  by (induction xs arbitrary: ys) (auto simp: bindE_Inr_iff)











lemma normalise_single_left_str:
  assumes "groups = ((AStr s, num, t) # ps) # gs"
  shows "normalise_pins (YList [yaml_of_side groups]) = Inr [(yaml_of_side groups, YList [])]"
  unfolding assms
  by (simp add: normalise_pins_def unit_list_def first_pin_or_grp_def normalise_unit_def
      yaml_of_side_def yaml_of_pin_def)

text \<open>
  Claim C4. A single-unit, left-only structure must normalise to one unit with the input
  groups on the left and an empty right side. The code does so when the first pin name is
  a string, but with integer pin names, which the module's docstring allows, two left
  groups come back as one unit with the first group as its left side and the second group
  as its right side.
\<close>

theorem normalise_integer_names:
  "normalise_pins (YList [yaml_of_side [[(AInt 1, AInt 1, ''in'')], [(AInt 2, AInt 2, ''in'')]]])
     = Inr [(YList [YList [YInt 1, YInt 1, YStr ''in'']], YList [YList [YInt 2, YInt 2, YStr ''in'']])]
   \<and> yaml_of_side [[(AInt 1, AInt 1, ''in'')], [(AInt 2, AInt 2, ''in'')]]
     = YList [YList [YList [YInt 1, YInt 1, YStr ''in'']], YList [YList [YInt 2, YInt 2, YStr ''in'']]]"
  by (simp add: normalise_pins_def unit_list_def first_pin_or_grp_def normalise_unit_def
      yaml_of_side_def yaml_of_pin_def)

section \<open>The definition header\<close>

lemma getitem_0_iter:
  assumes "getitem pins 0 = Inr a" "iter_yaml pins = Inr us"
  shows "us \<noteq> []"
  using assms by (cases pins) (auto split: if_splits)

lemma unit_list_nonempty:
  assumes "unit_list pins = Inr us"
  shows "us \<noteq> []"
proof -
  from assms obtain f f0 where f: "first_pin_or_grp pins = Inr f"
    and it: "iter_yaml (if is_str f0 then YList [pins] else pins) = Inr us"
    unfolding unit_list_def bindE_Inr_iff by blast
  from f obtain a where a: "getitem pins 0 = Inr a"
    unfolding first_pin_or_grp_def bindE_Inr_iff by blast
  show ?thesis
  proof (cases "is_str f0")
    case True
    with it show ?thesis by auto
  next
    case False
    with it have "iter_yaml pins = Inr us" by simp
    with a show ?thesis by (rule getitem_0_iter)
  qed
qed

lemma normalise_pins_nonempty:
  assumes "normalise_pins pins = Inr units"
  shows "units \<noteq> []"
proof -
  from assms obtain us where us: "unit_list pins = Inr us" and m: "mapE normalise_unit us = Inr units"
    unfolding normalise_pins_def bindE_Inr_iff by blast
  from mapE_length [OF m] unit_list_nonempty [OF us] show ?thesis by auto
qed

lemma library_elm_Returns:
  assumes "library_elm elm = Returns ls"
  shows "\<exists>pins units name typed rest.
           conf_pins elm = Some pins \<and> normalise_pins pins = Inr units \<and>
           conf_name elm = Some name \<and> those (map as_unit units) = Some typed \<and>
           ls = [''#'' @ [CHR 0x0A] @ ''# '' @ name @ [CHR 0x0A] @ ''#'',
                 def_line name (get_or (conf_designator elm) ''IC'') (length units)] @ rest"
  using assms unfolding library_elm_def item_def
  by (auto split: option.splits sum.splits simp: bindE_Inr_iff)

text \<open>
  Claim C9. In the entries that \<^verbatim>\<open>library\<close> emits for a component, the \<^verbatim>\<open>DEF\<close> line
  carries \<open>L\<close> when \<^verbatim>\<open>normalise_pins\<close> gave more than one unit and \<open>F\<close> when it gave
  exactly one; it never gives none.
\<close>

theorem locked_flag:
  assumes "library_elm elm = Returns ls"
  shows "\<exists>pins units name.
           conf_pins elm = Some pins \<and> normalise_pins pins = Inr units \<and>
           conf_name elm = Some name \<and> 1 \<le> length units \<and>
           ls ! 1 = ''DEF '' @ name @ '' '' @ get_or (conf_designator elm) ''IC''
                      @ '' 0 40 Y Y '' @ str_int (int (length units)) @ '' ''
                      @ (if length units > 1 then ''L'' else ''F'') @ '' N''"
proof -
  from library_elm_Returns [OF assms]
  obtain pins units name rest where p: "conf_pins elm = Some pins"
    and u: "normalise_pins pins = Inr units" and n: "conf_name elm = Some name"
    and ls: "ls = [''#'' @ [CHR 0x0A] @ ''# '' @ name @ [CHR 0x0A] @ ''#'',
                 def_line name (get_or (conf_designator elm) ''IC'') (length units)] @ rest"
    by blast
  from normalise_pins_nonempty [OF u] have len: "1 \<le> length units"
    by (cases units) auto
  then have "(if length units = 1 then ''F'' else ''L'') = (if length units > 1 then ''L'' else ''F'')"
    by auto
  then have "ls ! 1 = ''DEF '' @ name @ '' '' @ get_or (conf_designator elm) ''IC''
                      @ '' 0 40 Y Y '' @ str_int (int (length units)) @ '' ''
                      @ (if length units > 1 then ''L'' else ''F'') @ '' N''"
    unfolding ls def_line_def Let_def by simp
  with p u n len show ?thesis by blast
qed

section \<open>A two-unit gate, evaluated\<close>

lemma str_int_samples:
  "str_int 0 = ''0''" "str_int 1 = ''1''" "str_int 2 = ''2''" "str_int 3 = ''3''"
  "str_int 4 = ''4''" "str_int 5 = ''5''" "str_int 6 = ''6''"
  "str_int 100 = ''100''" "str_int 200 = ''200''" "str_int 150 = ''150''"
  "str_int (- 100) = ''-100''" "str_int (- 150) = ''-150''" "str_int (- 200) = ''-200''"
  "str_int (- 300) = ''-300''" "str_int (- 400) = ''-400''" "str_int (- 500) = ''-500''"
  "str_int (- 600) = ''-600''"
  by (simp_all add: str_int_def str_nat.simps)

lemma gate_units:
  "normalise_pins (YList [
     YList [YList [YList [YList [YStr ''A'', YInt 1, YStr ''in''], YList [YStr ''B'', YInt 2, YStr ''in'']]],
            YList [YList [YList [YStr ''Y'', YInt 3, YStr ''out'']]]],
     YList [YList [YList [YList [YStr ''A'', YInt 4, YStr ''in''], YList [YStr ''B'', YInt 5, YStr ''in'']]],
            YList [YList [YList [YStr ''Y'', YInt 6, YStr ''out'']]]]])
   = Inr [(YList [YList [YList [YStr ''A'', YInt 1, YStr ''in''], YList [YStr ''B'', YInt 2, YStr ''in'']]],
           YList [YList [YList [YStr ''Y'', YInt 3, YStr ''out'']]]),
          (YList [YList [YList [YStr ''A'', YInt 4, YStr ''in''], YList [YStr ''B'', YInt 5, YStr ''in'']]],
           YList [YList [YList [YStr ''Y'', YInt 6, YStr ''out'']]])]"
  by (simp add: normalise_pins_def unit_list_def first_pin_or_grp_def normalise_unit_def)

lemma gate_longest_num:
  "longest_num [([[(AStr ''A'', AInt 1, ''in''), (AStr ''B'', AInt 2, ''in'')]], [[(AStr ''Y'', AInt 3, ''out'')]]),
                ([[(AStr ''A'', AInt 4, ''in''), (AStr ''B'', AInt 5, ''in'')]], [[(AStr ''Y'', AInt 6, ''out'')]])]
   = Inr 1"
  by (simp add: longest_num_def side_longest_num_def str_int_samples)

lemma gate_geometry:
  "geometry ([[(AStr ''A'', a, ''in''), (AStr ''B'', b, ''in'')]], [[(AStr ''Y'', c, ''out'')]]) 1
   = Inr (200, 300, 100)"
  by (simp add: geometry_def longest_name_def side_longest_name_def n_pins_def Let_def)

lemma gate_fields:
  \<open>fields \<lparr>conf_name = Some ''G'', conf_designator = None, conf_footprint = None,
      conf_datasheet = None, conf_ordercodes = Some [(''Farnell'', ''123''), (''RS'', ''456'')],
      conf_description = Some ''gate'', conf_pins = pins\<rparr>
     [([[(AStr ''A'', AInt 1, ''in''), (AStr ''B'', AInt 2, ''in'')]], [[(AStr ''Y'', AInt 3, ''out'')]]),
      ([[(AStr ''A'', AInt 4, ''in''), (AStr ''B'', AInt 5, ''in'')]], [[(AStr ''Y'', AInt 6, ''out'')]])]
   = Inr [''F0 "IC" -100 200 50 H V L CNN'',
          ''F1 "G" -100 -200 50 H V L CNN'',
          ''F2 "" -100 -300 50 H I L CNN'',
          ''F3 "" -100 -400 50 H I L CNN'',
          ''F4 "123" -100 -500 50 H I L CNN "Farnell"'',
          ''F5 "456" -100 -600 50 H I L CNN "RS"'']\<close>
  by (simp add: fields_def gate_longest_num gate_geometry Let_def item_def get_or_def
      ordercode_line_def enumerate_eq_zip upt_rec str_int_samples)

lemma gate_draw:
  "draw [([[(AStr ''A'', AInt 1, ''in''), (AStr ''B'', AInt 2, ''in'')]], [[(AStr ''Y'', AInt 3, ''out'')]]),
         ([[(AStr ''A'', AInt 4, ''in''), (AStr ''B'', AInt 5, ''in'')]], [[(AStr ''Y'', AInt 6, ''out'')]])]
   = Inr [''DRAW'',
          ''S -100 150 100 -150 1 1 0 f'',
          ''X A 1 -200 100 100 R 50 50 1 0 I'',
          ''X B 2 -200 0 100 R 50 50 1 0 I'',
          ''X Y 3 200 100 100 L 50 50 1 0 O'',
          ''S -100 150 100 -150 2 1 0 f'',
          ''X A 4 -200 100 100 R 50 50 2 0 I'',
          ''X B 5 -200 0 100 R 50 50 2 0 I'',
          ''X Y 6 200 100 100 L 50 50 2 0 O'',
          ''ENDDRAW'']"
  by (simp add: draw_def gate_longest_num gate_geometry draw_unit_def Let_def box_line_def
      pin_line_def pin_types_def item_def enumerate_eq_zip upt_rec str_int_samples)

theorem locked_flag_witness:
  "\<exists>ls. library_elm \<lparr>conf_name = Some ''G'', conf_designator = None, conf_footprint = None,
      conf_datasheet = None, conf_ordercodes = Some [(''Farnell'', ''123''), (''RS'', ''456'')],
      conf_description = Some ''gate'', conf_pins = Some (YList [
     YList [YList [YList [YList [YStr ''A'', YInt 1, YStr ''in''], YList [YStr ''B'', YInt 2, YStr ''in'']]],
            YList [YList [YList [YStr ''Y'', YInt 3, YStr ''out'']]]],
     YList [YList [YList [YList [YStr ''A'', YInt 4, YStr ''in''], YList [YStr ''B'', YInt 5, YStr ''in'']]],
            YList [YList [YList [YStr ''Y'', YInt 6, YStr ''out'']]]]])\<rparr> = Returns ls
        \<and> ls ! 1 = ''DEF G IC 0 40 Y Y 2 L N''"
proof -
  let ?E = "\<lparr>conf_name = Some ''G'', conf_designator = None, conf_footprint = None,
      conf_datasheet = None, conf_ordercodes = Some [(''Farnell'', ''123''), (''RS'', ''456'')],
      conf_description = Some ''gate'', conf_pins = Some (YList [
     YList [YList [YList [YList [YStr ''A'', YInt 1, YStr ''in''], YList [YStr ''B'', YInt 2, YStr ''in'']]],
            YList [YList [YList [YStr ''Y'', YInt 3, YStr ''out'']]]],
     YList [YList [YList [YList [YStr ''A'', YInt 4, YStr ''in''], YList [YStr ''B'', YInt 5, YStr ''in'']]],
            YList [YList [YList [YStr ''Y'', YInt 6, YStr ''out'']]]]])\<rparr>"
  have "\<exists>ls. library_elm ?E = Returns ls"
    by (simp add: library_elm_def item_def gate_units as_unit_def gate_fields gate_draw)
  then obtain ls where e: "library_elm ?E = Returns ls" by blast
  from locked_flag [OF e] have "ls ! 1 = ''DEF G IC 0 40 Y Y 2 L N''"
    by (auto simp: gate_units get_or_def str_int_samples)
  with e show ?thesis by blast
qed

section \<open>Field lines\<close>

lemma item_Inr_iff: "item v = Inr x \<longleftrightarrow> v = Some x"
  by (cases v) (simp_all add: item_def)

lemma fields_Inr:
  assumes "fields conf units = Inr out"
  shows \<open>\<exists>field_x field_y name.
     conf_name conf = Some name \<and>
     out = [''F0 "'' @ get_or (conf_designator conf) ''IC'' @ ''" '' @ str_int field_x
              @ '' '' @ str_int field_y @ '' 50 H V L CNN'',
            ''F1 "'' @ name @ ''" '' @ str_int field_x @ '' '' @ str_int (- field_y)
              @ '' 50 H V L CNN'',
            (case conf_footprint conf of
               Some footprint \<Rightarrow>
                 ''F2 "'' @ footprint @ ''" '' @ str_int field_x @ '' ''
                   @ str_int (- field_y - 100) @ '' 50 H I L CNN''
             | None \<Rightarrow>
                 ''F2 "" '' @ str_int field_x @ '' '' @ str_int (- field_y - 100)
                   @ '' 50 H I L CNN''),
            (case conf_datasheet conf of
               Some datasheet \<Rightarrow>
                 ''F3 "'' @ datasheet @ ''" '' @ str_int field_x @ '' ''
                   @ str_int (- field_y - 200) @ '' 50 H I L CNN''
             | None \<Rightarrow>
                 ''F3 "" '' @ str_int field_x @ '' '' @ str_int (- field_y - 200)
                   @ '' 50 H I L CNN'')]
           @ map (ordercode_line field_x field_y)
               (enumerate 0 (get_or (conf_ordercodes conf) []))\<close>
  using assms unfolding fields_def bindE_Inr_iff Let_def
  by (elim exE conjE) (simp only: sum.inject item_Inr_iff, blast)

lemma str_int_digits: "str_int 0 = ''0''" "str_int 1 = ''1''" "str_int 2 = ''2''" "str_int 3 = ''3''"
  by (simp_all add: str_int_def str_nat.simps)

lemma prefix_case_option:
  "(\<And>x. v = Some x \<Longrightarrow> prefix p (f x)) \<Longrightarrow> (v = None \<Longrightarrow> prefix p g) \<Longrightarrow>
   prefix p (case v of Some x \<Rightarrow> f x | None \<Rightarrow> g)"
  by (cases v) auto

text \<open>
  Claim C5. \<^verbatim>\<open>fields\<close> emits the lines \<open>F0\<close>, \<open>F1\<close>, \<open>F2\<close>, \<open>F3\<close> in that order,
  with the empty string in \<open>F2\<close> when there is no footprint and in \<open>F3\<close> when there is no
  datasheet, followed by one line per order code, numbered from 4 in input order, carrying
  the code as its text and the supplier as its trailing tag; without order codes there are
  exactly four lines.
\<close>

theorem field_indices:
  assumes "fields conf units = Inr out"
  shows \<open>length out = 4 + length (get_or (conf_ordercodes conf) [])
       \<and> (\<forall>i < length out. prefix (''F'' @ str_int (int i) @ '' "'') (out ! i))
       \<and> (conf_footprint conf = None \<longrightarrow> prefix ''F2 "" '' (out ! 2))
       \<and> (conf_datasheet conf = None \<longrightarrow> prefix ''F3 "" '' (out ! 3))
       \<and> (\<forall>k < length (get_or (conf_ordercodes conf) []).
            prefix (''F'' @ str_int (int k + 4) @ '' "'' @ snd (get_or (conf_ordercodes conf) [] ! k) @ ''" '')
              (out ! (4 + k))
            \<and> suffix ('' "'' @ fst (get_or (conf_ordercodes conf) [] ! k) @ ''"'') (out ! (4 + k)))\<close>
proof -
  define ocs where "ocs = get_or (conf_ordercodes conf) []"
  from fields_Inr [OF assms] obtain fx fy name f0 f1 f2 f3 where
    out: "out = [f0, f1, f2, f3] @ map (ordercode_line fx fy) (enumerate 0 ocs)"
    and f0: \<open>f0 = ''F0 "'' @ get_or (conf_designator conf) ''IC'' @ ''" '' @ str_int fx
              @ '' '' @ str_int fy @ '' 50 H V L CNN''\<close>
    and f1: \<open>f1 = ''F1 "'' @ name @ ''" '' @ str_int fx @ '' '' @ str_int (- fy)
              @ '' 50 H V L CNN''\<close>
    and f2: \<open>f2 = (case conf_footprint conf of
               Some footprint \<Rightarrow>
                 ''F2 "'' @ footprint @ ''" '' @ str_int fx @ '' ''
                   @ str_int (- fy - 100) @ '' 50 H I L CNN''
             | None \<Rightarrow>
                 ''F2 "" '' @ str_int fx @ '' '' @ str_int (- fy - 100)
                   @ '' 50 H I L CNN'')\<close>
    and f3: \<open>f3 = (case conf_datasheet conf of
               Some datasheet \<Rightarrow>
                 ''F3 "'' @ datasheet @ ''" '' @ str_int fx @ '' ''
                   @ str_int (- fy - 200) @ '' 50 H I L CNN''
             | None \<Rightarrow>
                 ''F3 "" '' @ str_int fx @ '' '' @ str_int (- fy - 200)
                   @ '' 50 H I L CNN'')\<close>
    unfolding ocs_def by blast
  have len: "length out = 4 + length ocs" by (simp add: out)
  have oc: "out ! (4 + k) = ordercode_line fx fy (k, ocs ! k)" if "k < length ocs" for k
    using that by (simp add: out nth_append nth_enumerate_eq)
  have p0: \<open>prefix (''F'' @ str_int 0 @ '' "'') f0\<close> by (simp add: f0 str_int_digits)
  have p1: \<open>prefix (''F'' @ str_int 1 @ '' "'') f1\<close> by (simp add: f1 str_int_digits)
  have p2: \<open>prefix (''F'' @ str_int 2 @ '' "'') f2\<close>
    unfolding f2 by (rule prefix_case_option) (simp_all add: str_int_digits)
  have p3: \<open>prefix (''F'' @ str_int 3 @ '' "'') f3\<close>
    unfolding f3 by (rule prefix_case_option) (simp_all add: str_int_digits)
  have ock: \<open>prefix (''F'' @ str_int (int k + 4) @ '' "'' @ snd (ocs ! k) @ ''" '') (out ! (4 + k))
            \<and> suffix ('' "'' @ fst (ocs ! k) @ ''"'') (out ! (4 + k))\<close> if "k < length ocs" for k
  proof -
    obtain supplier code where sc: "ocs ! k = (supplier, code)" by (cases "ocs ! k")
    have \<open>out ! (4 + k) = (''F'' @ str_int (int k + 4) @ '' "'' @ code @ ''" '') @ str_int fx @ '' ''
          @ str_int (- fy - (300 + int k * 100)) @ '' 50 H I L CNN "'' @ supplier @ ''"''\<close>
      unfolding oc [OF that] sc ordercode_line_def by simp
    moreover have \<open>out ! (4 + k) = (''F'' @ str_int (int k + 4) @ '' "'' @ code @ ''" '' @ str_int fx @ '' ''
          @ str_int (- fy - (300 + int k * 100)) @ '' 50 H I L CNN'') @ ('' "'' @ supplier @ ''"'')\<close>
      unfolding oc [OF that] sc ordercode_line_def by simp
    ultimately show ?thesis unfolding sc fst_conv snd_conv
      by (metis prefixI suffixI)
  qed
  have all: \<open>prefix (''F'' @ str_int (int i) @ '' "'') (out ! i)\<close> if i: "i < length out" for i
  proof -
    consider "i = 0" | "i = 1" | "i = 2" | "i = 3" | "4 \<le> i" by linarith
    then show ?thesis
    proof cases
      case 1 with p0 show ?thesis by (simp add: out)
    next
      case 2 with p1 show ?thesis by (simp add: out)
    next
      case 3 with p2 show ?thesis by (simp add: out)
    next
      case 4 with p3 show ?thesis by (simp add: out numeral_3_eq_3)
    next
      case 5
      then obtain k where k: "i = 4 + k" by (auto simp: le_iff_add)
      with i len have kl: "k < length ocs" by simp
      from ock [OF kl] have \<open>prefix ((''F'' @ str_int (int k + 4) @ '' "'') @ (snd (ocs ! k) @ ''" '')) (out ! (4 + k))\<close>
        by simp
      then have \<open>prefix (''F'' @ str_int (int k + 4) @ '' "'') (out ! (4 + k))\<close>
        by (rule append_prefixD)
      moreover have "int k + 4 = int i" using k by simp
      ultimately show ?thesis using k by simp
    qed
  qed
  have e2: \<open>conf_footprint conf = None \<longrightarrow> prefix ''F2 "" '' (out ! 2)\<close>
    by (simp add: out f2)
  have e3: \<open>conf_datasheet conf = None \<longrightarrow> prefix ''F3 "" '' (out ! 3)\<close>
    by (simp add: out f3 numeral_3_eq_3)
  from len all e2 e3 ock show ?thesis unfolding ocs_def by blast
qed

theorem field_indices_witness:
  \<open>fields \<lparr>conf_name = Some ''G'', conf_designator = None, conf_footprint = None,
      conf_datasheet = None, conf_ordercodes = Some [(''Farnell'', ''123''), (''RS'', ''456'')],
      conf_description = Some ''gate'', conf_pins = None\<rparr>
     [([[(AStr ''A'', AInt 1, ''in''), (AStr ''B'', AInt 2, ''in'')]], [[(AStr ''Y'', AInt 3, ''out'')]]),
      ([[(AStr ''A'', AInt 4, ''in''), (AStr ''B'', AInt 5, ''in'')]], [[(AStr ''Y'', AInt 6, ''out'')]])]
   = Inr [''F0 "IC" -100 200 50 H V L CNN'',
          ''F1 "G" -100 -200 50 H V L CNN'',
          ''F2 "" -100 -300 50 H I L CNN'',
          ''F3 "" -100 -400 50 H I L CNN'',
          ''F4 "123" -100 -500 50 H I L CNN "Farnell"'',
          ''F5 "456" -100 -600 50 H I L CNN "RS"'']
   \<and> length [''F0 "IC" -100 200 50 H V L CNN'',
          ''F1 "G" -100 -200 50 H V L CNN'',
          ''F2 "" -100 -300 50 H I L CNN'',
          ''F3 "" -100 -400 50 H I L CNN'',
          ''F4 "123" -100 -500 50 H I L CNN "Farnell"'',
          ''F5 "456" -100 -600 50 H I L CNN "RS"''] = 4 + length [(''Farnell'', ''123''), (''RS'', ''456'')]
   \<and> prefix ''F2 "" '' ''F2 "" -100 -300 50 H I L CNN''\<close>
proof -
  let ?E = "\<lparr>conf_name = Some ''G'', conf_designator = None, conf_footprint = None,
      conf_datasheet = None, conf_ordercodes = Some [(''Farnell'', ''123''), (''RS'', ''456'')],
      conf_description = Some ''gate'', conf_pins = None\<rparr>"
  let ?U = "[([[(AStr ''A'', AInt 1, ''in''), (AStr ''B'', AInt 2, ''in'')]], [[(AStr ''Y'', AInt 3, ''out'')]]),
      ([[(AStr ''A'', AInt 4, ''in''), (AStr ''B'', AInt 5, ''in'')]], [[(AStr ''Y'', AInt 6, ''out'')]])]"
  let ?L = \<open>[''F0 "IC" -100 200 50 H V L CNN'',
          ''F1 "G" -100 -200 50 H V L CNN'',
          ''F2 "" -100 -300 50 H I L CNN'',
          ''F3 "" -100 -400 50 H I L CNN'',
          ''F4 "123" -100 -500 50 H I L CNN "Farnell"'',
          ''F5 "456" -100 -600 50 H I L CNN "RS"'']\<close>
  have e: "fields ?E ?U = Inr ?L" by (rule gate_fields)
  from field_indices [OF e]
  have \<open>length ?L = 4 + length (get_or (conf_ordercodes ?E) [])
        \<and> (conf_footprint ?E = None \<longrightarrow> prefix ''F2 "" '' (?L ! 2))\<close>
    by blast
  then have \<open>length ?L = 4 + length [(''Farnell'', ''123''), (''RS'', ''456'')]
        \<and> prefix ''F2 "" '' ''F2 "" -100 -300 50 H I L CNN''\<close>
    by (simp add: get_or_def)
  with e show ?thesis by blast
qed

section \<open>Pin lines\<close>

lemma draw_group_Inr:
  "draw_group ps x y len d idx = Inr (ls, y') \<Longrightarrow>
     y' = y - 100 * int (length ps) \<and> length ls = length ps \<and>
     (\<forall>j < length ps. pin_line (ps ! j) x (y - 100 * int j) len d idx = Inr (ls ! j))"
proof (induction ps arbitrary: y ls)
  case Nil
  then show ?case by simp
next
  case (Cons p ps)
  from Cons.prems obtain l ls0 where l: "pin_line p x y len d idx = Inr l"
    and r: "draw_group ps x (y - 100) len d idx = Inr (ls0, y')" and ls: "ls = l # ls0"
    by (auto simp: bindE_Inr_iff)
  from Cons.IH [OF r] have y: "y' = y - 100 - 100 * int (length ps)"
    and n: "length ls0 = length ps"
    and a: "\<forall>j < length ps. pin_line (ps ! j) x (y - 100 - 100 * int j) len d idx = Inr (ls0 ! j)"
    by auto
  have "pin_line ((p # ps) ! j) x (y - 100 * int j) len d idx = Inr (ls ! j)"
    if "j < length (p # ps)" for j
  proof (cases j)
    case 0
    with l ls show ?thesis by simp
  next
    case (Suc i)
    with that have "i < length ps" by simp
    with a have "pin_line (ps ! i) x (y - 100 - 100 * int i) len d idx = Inr (ls0 ! i)" by blast
    moreover have "y - 100 - 100 * int i = y - 100 * int (Suc i)" by simp
    ultimately show ?thesis using Suc ls by simp
  qed
  with y n ls show ?case by simp
qed

lemma pins_before_0: "pins_before groups 0 = 0"
  by (simp add: pins_before_def)

lemma pins_before_Suc: "pins_before (g # gs) (Suc gi) = length g + pins_before gs gi"
  by (simp add: pins_before_def)

lemma draw_pins_Inr:
  "draw_pins groups x0 y0 d len idx = Inr out \<Longrightarrow>
     length out = length (concat groups) \<and>
     (\<forall>gi < length groups. \<forall>j < length (groups ! gi).
        pin_line (groups ! gi ! j) x0 (y0 - 100 * pin_row groups gi j) len d idx
          = Inr (out ! (pins_before groups gi + j)))"
proof (induction groups arbitrary: y0 out)
  case Nil
  then show ?case by simp
next
  case (Cons g gs)
  from Cons.prems obtain ls y rest where g: "draw_group g x0 y0 len d idx = Inr (ls, y)"
    and r: "draw_pins gs x0 (y - 100) d len idx = Inr rest" and out: "out = ls @ rest"
    by (auto simp: bindE_Inr_iff)
  from draw_group_Inr [OF g] have y: "y = y0 - 100 * int (length g)"
    and n: "length ls = length g"
    and a: "\<forall>j < length g. pin_line (g ! j) x0 (y0 - 100 * int j) len d idx = Inr (ls ! j)"
    by auto
  from Cons.IH [OF r] have m: "length rest = length (concat gs)"
    and b: "\<forall>gi < length gs. \<forall>j < length (gs ! gi).
        pin_line (gs ! gi ! j) x0 (y - 100 - 100 * pin_row gs gi j) len d idx
          = Inr (rest ! (pins_before gs gi + j))"
    by auto
  have "pin_line ((g # gs) ! gi ! j) x0 (y0 - 100 * pin_row (g # gs) gi j) len d idx
          = Inr (out ! (pins_before (g # gs) gi + j))"
    if gi: "gi < length (g # gs)" and j: "j < length ((g # gs) ! gi)" for gi j
  proof (cases gi)
    case 0
    with j have "j < length g" by simp
    with a n show ?thesis unfolding 0 out
      by (simp add: pin_row_def pins_before_0 nth_append)
  next
    case (Suc k)
    with gi j have k: "k < length gs" and jk: "j < length (gs ! k)" by simp_all
    with b have "pin_line (gs ! k ! j) x0 (y - 100 - 100 * pin_row gs k j) len d idx
          = Inr (rest ! (pins_before gs k + j))" by blast
    moreover have "y - 100 - 100 * pin_row gs k j = y0 - 100 * pin_row (g # gs) (Suc k) j"
      unfolding y pin_row_def pins_before_Suc by simp
    moreover have "out ! (pins_before (g # gs) (Suc k) + j) = rest ! (pins_before gs k + j)"
      unfolding out pins_before_Suc using n by (simp add: nth_append)
    ultimately show ?thesis unfolding Suc by simp
  qed
  with n m out show ?case by simp
qed

lemma draw_pins_guard:
  "(if groups \<noteq> [] then draw_pins groups x0 y0 d len idx else Inr []) = draw_pins groups x0 y0 d len idx"
  by (cases groups) simp_all

lemma draw_unit_Inr:
  assumes "draw_unit k n (i, (l, r)) = Inr out"
  shows "\<exists>w h len L R. geometry (l, r) n = Inr (w, h, len) \<and>
           draw_pins l ((- w) div 2 - len) (h div 2 - 50) ''R'' len (if k > 1 then int i + 1 else int i) = Inr L \<and>
           draw_pins r (- ((- w) div 2 - len)) (h div 2 - 50) ''L'' len (if k > 1 then int i + 1 else int i) = Inr R \<and>
           out = box_line w h (if k > 1 then int i + 1 else int i) # L @ R"
  using assms unfolding draw_unit_def Let_def split_conv draw_pins_guard bindE_Inr_iff
  by (elim exE conjE) (auto simp: bindE_Inr_iff)

text \<open>
  Claim C6, as amended. For every unit that \<^verbatim>\<open>draw\<close> emits, the box line is followed by
  the pin lines of the left side and then those of the right side. The left pins point
  right, at \<open>x = -width//2 - length\<close>; the right pins point left, at the negated \<open>x\<close>. On
  either side the first pin is 50 below the top edge of the box (\<open>y = height//2 - 50\<close>),
  and pin \<open>j\<close> of group \<open>gi\<close> is 100 lower for each pin and each group before it, so pins
  and groups appear in input order and the right side restarts from the same first row.
\<close>

theorem pin_placement:
  assumes "draw_unit k n (i, (l, r)) = Inr out"
  shows "\<exists>w h len L R.
           geometry (l, r) n = Inr (w, h, len) \<and>
           out = box_line w h (if k > 1 then int i + 1 else int i) # L @ R \<and>
           length L = length (concat l) \<and> length R = length (concat r) \<and>
           (\<forall>gi < length l. \<forall>j < length (l ! gi).
              pin_line (l ! gi ! j) ((- w) div 2 - len) (h div 2 - 50 - 100 * pin_row l gi j)
                len ''R'' (if k > 1 then int i + 1 else int i)
              = Inr (L ! (pins_before l gi + j))) \<and>
           (\<forall>gi < length r. \<forall>j < length (r ! gi).
              pin_line (r ! gi ! j) (- ((- w) div 2 - len)) (h div 2 - 50 - 100 * pin_row r gi j)
                len ''L'' (if k > 1 then int i + 1 else int i)
              = Inr (R ! (pins_before r gi + j)))"
proof -
  define idx where "idx = (if k > 1 then int i + 1 else int i)"
  from draw_unit_Inr [OF assms] obtain w h len L R where
    g: "geometry (l, r) n = Inr (w, h, len)"
    and L: "draw_pins l ((- w) div 2 - len) (h div 2 - 50) ''R'' len idx = Inr L"
    and R: "draw_pins r (- ((- w) div 2 - len)) (h div 2 - 50) ''L'' len idx = Inr R"
    and out: "out = box_line w h idx # L @ R"
    unfolding idx_def by blast
  from draw_pins_Inr [OF L] draw_pins_Inr [OF R] g out
  show ?thesis unfolding idx_def by blast
qed

theorem pin_placement_witness:
  "draw_unit 2 1 (0, ([[(AStr ''A'', AInt 1, ''in''), (AStr ''B'', AInt 2, ''in'')]],
                      [[(AStr ''Y'', AInt 3, ''out'')]]))
     = Inr [''S -100 150 100 -150 1 1 0 f'',
            ''X A 1 -200 100 100 R 50 50 1 0 I'',
            ''X B 2 -200 0 100 R 50 50 1 0 I'',
            ''X Y 3 200 100 100 L 50 50 1 0 O'']
   \<and> (\<exists>w h len L R.
         geometry ([[(AStr ''A'', AInt 1, ''in''), (AStr ''B'', AInt 2, ''in'')]],
                   [[(AStr ''Y'', AInt 3, ''out'')]]) 1 = Inr (w, h, len) \<and>
         [''S -100 150 100 -150 1 1 0 f'',
          ''X A 1 -200 100 100 R 50 50 1 0 I'',
          ''X B 2 -200 0 100 R 50 50 1 0 I'',
          ''X Y 3 200 100 100 L 50 50 1 0 O''] = box_line w h 1 # L @ R \<and>
         length L = 2 \<and> length R = 1)"
proof -
  let ?U = "([[(AStr ''A'', AInt 1, ''in''), (AStr ''B'', AInt 2, ''in'')]],
             [[(AStr ''Y'', AInt 3, ''out'')]])"
  have e: "draw_unit 2 1 (0, ?U)
     = Inr [''S -100 150 100 -150 1 1 0 f'',
            ''X A 1 -200 100 100 R 50 50 1 0 I'',
            ''X B 2 -200 0 100 R 50 50 1 0 I'',
            ''X Y 3 200 100 100 L 50 50 1 0 O'']"
    by (simp add: gate_geometry draw_unit_def Let_def box_line_def
        pin_line_def pin_types_def item_def str_int_samples)
  from pin_placement [OF e] obtain w h len L R where
    "geometry ?U 1 = Inr (w, h, len)"
    "[''S -100 150 100 -150 1 1 0 f'',
      ''X A 1 -200 100 100 R 50 50 1 0 I'',
      ''X B 2 -200 0 100 R 50 50 1 0 I'',
      ''X Y 3 200 100 100 L 50 50 1 0 O'']
       = box_line w h (if 1 < (2::nat) then int 0 + 1 else int 0) # L @ R"
    "length L = length (concat [[(AStr ''A'', AInt 1, ''in''), (AStr ''B'', AInt 2, ''in'')]])"
    "length R = length (concat [[(AStr ''Y'', AInt 3, ''out'')]])"
    by blast
  then have "geometry ?U 1 = Inr (w, h, len) \<and>
         [''S -100 150 100 -150 1 1 0 f'',
          ''X A 1 -200 100 100 R 50 50 1 0 I'',
          ''X B 2 -200 0 100 R 50 50 1 0 I'',
          ''X Y 3 200 100 100 L 50 50 1 0 O''] = box_line w h 1 # L @ R \<and>
         length L = 2 \<and> length R = 1"
    by simp
  with e show ?thesis by blast
qed

text \<open>
  The claim as stated fails for the unit of two left pins \<open>A\<close> and \<open>B\<close>: its box has the
  top-left corner at \<open>(-100, 150)\<close>, so a first pin at that corner moved outward by the
  stub length would be at \<open>(-200, 150)\<close>; the first pin line is at \<open>(-200, 100)\<close>.
\<close>

theorem pin_start_counterexample:
  "geometry ([[(AStr ''A'', AInt 1, ''in''), (AStr ''B'', AInt 2, ''in'')]], []) 1 = Inr (200, 300, 100)
   \<and> draw_unit 1 1 (0, ([[(AStr ''A'', AInt 1, ''in''), (AStr ''B'', AInt 2, ''in'')]], []))
       = Inr [''S -100 150 100 -150 0 1 0 f'',
              ''X A 1 -200 100 100 R 50 50 0 0 I'',
              ''X B 2 -200 0 100 R 50 50 0 0 I'']
   \<and> spec_pin_start 200 300 100 = (- 200, 150)
   \<and> pin_line (AStr ''A'', AInt 1, ''in'') (fst (spec_pin_start 200 300 100))
        (snd (spec_pin_start 200 300 100)) 100 ''R'' 0
       \<noteq> Inr ''X A 1 -200 100 100 R 50 50 0 0 I''"
  by (simp add: scenario_a_geometry draw_unit_def Let_def box_line_def spec_pin_start_def
      pin_line_def pin_types_def item_def str_int_samples)

section \<open>Well-formed components produce output\<close>

lemma geometry_wf:
  assumes "wf_side l" "wf_side r"
  shows "\<exists>w h. geometry (l, r) n = Inr (w, h, max 100 (n * 50))"
proof -
  from longest_name_wf [OF assms] obtain ln where "longest_name (l, r) = Inr ln" by blast
  then show ?thesis by (rule geometry_returns)
qed

lemma py_max_nonempty: "xs \<noteq> [] \<Longrightarrow> \<exists>m. py_max xs = Inr m"
  by (cases xs) simp_all

lemma fields_returns:
  assumes "units \<noteq> []" and "\<forall>(l, r) \<in> set units. wf_side l \<and> wf_side r"
    and "conf_name conf = Some name"
  shows "\<exists>out. fields conf units = Inr out"
proof -
  from longest_num_wf [OF assms(1,2)] obtain n where n: "longest_num units = Inr n" by blast
  have "\<forall>u \<in> set units. \<exists>g. geometry u n = Inr g"
  proof
    fix u assume u: "u \<in> set units"
    obtain l r where lr: "u = (l, r)" by (cases u)
    with u assms(2) have "wf_side l" "wf_side r" by auto
    from geometry_wf [OF this, of n] show "\<exists>g. geometry u n = Inr g" unfolding lr by blast
  qed
  from mapE_total [OF this] obtain geoms where g: "mapE (\<lambda>unit. geometry unit n) units = Inr geoms"
    and len: "length geoms = length units" by blast
  from len assms(1) have ne: "geoms \<noteq> []" by auto
  from py_max_nonempty [of "map (\<lambda>g. fst g) geoms"] ne
  obtain width where w: "py_max (map (\<lambda>g. fst g) geoms) = Inr width" by auto
  from py_max_nonempty [of "map (\<lambda>g. fst (snd g)) geoms"] ne
  obtain height where h: "py_max (map (\<lambda>g. fst (snd g)) geoms) = Inr height" by auto
  show ?thesis
    unfolding fields_def by (simp add: n g w h Let_def item_def assms(3))
qed

lemma draw_group_returns:
  assumes "\<forall>(name, num, t) \<in> set ps. t \<in> dom pin_types"
  shows "\<exists>ls y'. draw_group ps x y len d idx = Inr (ls, y')"
  using assms
proof (induction ps arbitrary: y)
  case Nil
  then show ?case by simp
next
  case (Cons p ps)
  obtain name num t where p: "p = (name, num, t)" by (cases p)
  with Cons.prems obtain code where "pin_types t = Some code" by auto
  then have "\<exists>l. pin_line p x y len d idx = Inr l"
    by (simp add: pin_line_def p item_def)
  then obtain l where l: "pin_line p x y len d idx = Inr l" by blast
  from Cons.prems have "\<forall>(name, num, t) \<in> set ps. t \<in> dom pin_types" by simp
  from Cons.IH [OF this, of "y - 100"]
  obtain ls y' where "draw_group ps x (y - 100) len d idx = Inr (ls, y')" by blast
  with l show ?case by simp
qed

lemma draw_pins_returns:
  assumes "\<forall>grp \<in> set groups. \<forall>(name, num, t) \<in> set grp. t \<in> dom pin_types"
  shows "\<exists>out. draw_pins groups x0 y0 d len idx = Inr out"
  using assms
proof (induction groups arbitrary: y0)
  case Nil
  then show ?case by simp
next
  case (Cons g gs)
  from Cons.prems have "\<forall>(name, num, t) \<in> set g. t \<in> dom pin_types" by simp
  from draw_group_returns [OF this, of x0 y0 len d idx]
  obtain ls y where g: "draw_group g x0 y0 len d idx = Inr (ls, y)" by blast
  from Cons.prems have "\<forall>grp \<in> set gs. \<forall>(name, num, t) \<in> set grp. t \<in> dom pin_types" by simp
  from Cons.IH [OF this, of "y - 100"]
  obtain rest where "draw_pins gs x0 (y - 100) d len idx = Inr rest" by blast
  with g show ?case by simp
qed

lemma draw_unit_returns:
  assumes "wf_side l" "wf_side r"
    and "\<forall>grp \<in> set (l @ r). \<forall>(name, num, t) \<in> set grp. t \<in> dom pin_types"
  shows "\<exists>out. draw_unit k n (i, (l, r)) = Inr out"
proof -
  from geometry_wf [OF assms(1,2), of n] obtain w h
    where g: "geometry (l, r) n = Inr (w, h, max 100 (n * 50))" by blast
  define idx where "idx = (if k > 1 then int i + 1 else int i)"
  define len where "len = max 100 (n * 50)"
  from assms(3) have "\<forall>grp \<in> set l. \<forall>(name, num, t) \<in> set grp. t \<in> dom pin_types" by auto
  from draw_pins_returns [OF this]
  obtain L where L: "draw_pins l ((- w) div 2 - len) (h div 2 - 50) ''R'' len idx = Inr L"
    by blast
  from assms(3) have "\<forall>grp \<in> set r. \<forall>(name, num, t) \<in> set grp. t \<in> dom pin_types" by auto
  from draw_pins_returns [OF this]
  obtain R where R: "draw_pins r (- ((- w) div 2 - len)) (h div 2 - 50) ''L'' len idx = Inr R"
    by blast
  show ?thesis
    unfolding draw_unit_def Let_def split_conv draw_pins_guard g bindE_Inr
    using L R unfolding idx_def len_def by simp
qed

end
